theory Spec2Isabelle
  imports Main "HOL-Library.AList" "HOL-Library.Multiset" "HOL-Library.Product_Lexorder"
begin

section \<open>Market statistics: the aggregation core of market_stats.py\<close>

text \<open>
  The three aggregations of \<^verbatim>\<open>market_stats.py\<close> are embedded as HOL functions:
  \<^verbatim>\<open>get_total_price\<close>, \<^verbatim>\<open>get_total_price_by_name\<close> and
  \<^verbatim>\<open>get_total_price_by_month\<close>.

  \<^item> A Python \<^verbatim>\<open>dict\<close> keeps its keys in insertion order and the two summaries are
    returned in a sorted order, so a dictionary is an association list with distinct
    keys: a lookup is \<open>map_of\<close>, an assignment \<^verbatim>\<open>d[k] = v\<close> is \<open>AList.update\<close>
    (the value is replaced in place when the key is present, the pair is appended
    otherwise).
  \<^item> A record's two dates are calendar dates. The loader builds every one of them with
    \<^verbatim>\<open>datetime.strptime(s, "%d %b %Y")\<close>, so its time of day is midnight and it has
    no time zone; the record \<open>datetime\<close> keeps the three date fields, and two dates
    compare by year, month and day. (A time of day would take part in the comparison
    \<^verbatim>\<open>current <= end\<close>; the loader produces none.)
  \<^item> Python's \<^verbatim>\<open>datetime\<close> refuses a field out of range with \<^verbatim>\<open>ValueError\<close>; the
    constructor \<open>mk_datetime\<close> has that branch, and so has every function that
    calls \<^verbatim>\<open>replace\<close>.
  \<^item> A price is an element of a type \<open>'p\<close> with an addition and a zero. The
    statements name the laws of addition they rely on through the type class of
    \<open>'p\<close>: none, those of a monoid, or those of a commutative monoid. Exact decimal
    amounts satisfy all of them. Python's \<^verbatim>\<open>float\<close>, the type the code computes with,
    satisfies none beyond \<open>0 + x = x\<close>, since its addition rounds; the type
    \<open>whole_float\<close> models that addition on whole numbers.
\<close>

subsection \<open>Dates\<close>

datatype error = ValueError

record datetime =
  year :: nat
  month :: nat
  day :: nat

definition MINYEAR :: nat where "MINYEAR = 1"
definition MAXYEAR :: nat where "MAXYEAR = 9999"

definition is_leap :: "nat \<Rightarrow> bool" where
  "is_leap y = (y mod 4 = 0 \<and> (y mod 100 \<noteq> 0 \<or> y mod 400 = 0))"

definition days_in_month :: "nat \<Rightarrow> nat \<Rightarrow> nat" where
  "days_in_month y m =
     (if m = 2 then (if is_leap y then 29 else 28)
      else if m = 4 \<or> m = 6 \<or> m = 9 \<or> m = 11 then 30 else 31)"

definition valid_datetime :: "datetime \<Rightarrow> bool" where
  "valid_datetime d =
     (MINYEAR \<le> year d \<and> year d \<le> MAXYEAR \<and> 1 \<le> month d \<and> month d \<le> 12
      \<and> 1 \<le> day d \<and> day d \<le> days_in_month (year d) (month d))"

text \<open>The constructor \<^verbatim>\<open>datetime(year, month, day)\<close>: it checks the three fields.\<close>

definition mk_datetime :: "nat \<Rightarrow> nat \<Rightarrow> nat \<Rightarrow> error + datetime" where
  "mk_datetime y m d =
     (let r = \<lparr>year = y, month = m, day = d\<rparr>
      in if valid_datetime r then Inr r else Inl ValueError)"

text \<open>
  \<^verbatim>\<open>d.replace(day=1)\<close>, \<^verbatim>\<open>d.replace(month=m)\<close> and
  \<^verbatim>\<open>d.replace(year=y, month=m)\<close>: each builds a new date through the constructor.
\<close>

definition replace_day :: "datetime \<Rightarrow> nat \<Rightarrow> error + datetime" where
  "replace_day d n = mk_datetime (year d) (month d) n"

definition replace_month :: "datetime \<Rightarrow> nat \<Rightarrow> error + datetime" where
  "replace_month d m = mk_datetime (year d) m (day d)"

definition replace_year_month :: "datetime \<Rightarrow> nat \<Rightarrow> nat \<Rightarrow> error + datetime" where
  "replace_year_month d y m = mk_datetime y m (day d)"

text \<open>Dates compare field by field, the year first.\<close>

definition date_key :: "datetime \<Rightarrow> nat \<times> nat \<times> nat" where
  "date_key d = (year d, month d, day d)"

definition date_le :: "datetime \<Rightarrow> datetime \<Rightarrow> bool" where
  "date_le a b = (date_key a \<le> date_key b)"

subsection \<open>Month labels: the format "%Y-%b"\<close>

text \<open>
  \<^verbatim>\<open>strftime\<close> and \<^verbatim>\<open>strptime\<close> belong to Python's library. They are modelled
  as CPython behaves on Linux, in the C locale. \<^verbatim>\<open>strftime\<close> hands \<^verbatim>\<open>%Y\<close> to the C
  library, which writes the year in decimal without padding: 2024, 999, 1.
  \<^verbatim>\<open>%b\<close> is the abbreviated English month name. \<^verbatim>\<open>strptime\<close> accepts exactly four
  digits for \<^verbatim>\<open>%Y\<close>, a hyphen and a month abbreviation, fills the missing day with 1
  and builds the date through the constructor. It is applied only to labels that
  \<^verbatim>\<open>strftime\<close> wrote, so the match of the abbreviation is written case-sensitive.
\<close>

definition month_abbr :: "string list" where
  "month_abbr = [''Jan'', ''Feb'', ''Mar'', ''Apr'', ''May'', ''Jun'',
                 ''Jul'', ''Aug'', ''Sep'', ''Oct'', ''Nov'', ''Dec'']"

definition digit_char :: "nat \<Rightarrow> char" where
  "digit_char n = char_of (48 + n)"

definition is_digit :: "char \<Rightarrow> bool" where
  "is_digit c = (48 \<le> (of_char c :: nat) \<and> (of_char c :: nat) \<le> 57)"

definition digit_val :: "char \<Rightarrow> nat" where
  "digit_val c = of_char c - 48"

text \<open>The decimal digits of a number, the most significant first, and their value.\<close>

fun decimal :: "nat \<Rightarrow> string" where
  "decimal n = (if n < 10 then [digit_char n] else decimal (n div 10) @ [digit_char (n mod 10)])"

declare decimal.simps [simp del]

definition undecimal :: "string \<Rightarrow> nat" where
  "undecimal s = foldl (\<lambda>a c. a * 10 + digit_val c) 0 s"

definition strftime_Yb :: "datetime \<Rightarrow> string" where
  "strftime_Yb d = decimal (year d) @ ''-'' @ month_abbr ! (month d - 1)"

definition strptime_Yb :: "string \<Rightarrow> error + datetime" where
  "strptime_Yb s =
     (case s of
        a # b # c # d # h # rest \<Rightarrow>
          if is_digit a \<and> is_digit b \<and> is_digit c \<and> is_digit d \<and> h = CHR ''-'' then
            (case map_of (zip month_abbr [1 ..< 13]) rest of
               Some m \<Rightarrow>
                 mk_datetime (digit_val a * 1000 + digit_val b * 100 + digit_val c * 10 + digit_val d) m 1
             | None \<Rightarrow> Inl ValueError)
          else Inl ValueError
      | _ \<Rightarrow> Inl ValueError)"

subsection \<open>Records and dictionaries\<close>

record 'p MarketItem =
  name :: string
  price :: 'p
  currency :: string
  listed_on :: datetime
  acted_on :: datetime

text \<open>
  A summary: item name or month label to \<open>(total_price, count)\<close>, in dictionary order.
  The source's variable \<^verbatim>\<open>count\<close> is written \<open>count'\<close> below.
\<close>

type_synonym 'p totals = "(string \<times> 'p \<times> nat) list"

text \<open>
  \<^verbatim>\<open>sorted(xs, key=key, reverse=reverse)\<close> is a stable sort. With
  \<^verbatim>\<open>reverse=True\<close> the list is reversed, sorted and reversed again, so that equal
  keys keep their original order.
\<close>

definition sorted_py :: "('a \<Rightarrow> 'k::linorder) \<Rightarrow> bool \<Rightarrow> 'a list \<Rightarrow> 'a list" where
  "sorted_py key reverse xs =
     (if reverse then rev (sort_key key (rev xs)) else sort_key key xs)"

text \<open>\<^verbatim>\<open>dict(pairs)\<close> assigns the pairs one after the other.\<close>

definition dict_of :: "('k \<times> 'v) list \<Rightarrow> ('k \<times> 'v) list" where
  "dict_of kvs = foldl (\<lambda>d (k, v). AList.update k v d) [] kvs"

text \<open>
  Reading \<^verbatim>\<open>totals[k]\<close> from \<^verbatim>\<open>defaultdict(lambda: (0.0, 0))\<close>: a missing key is
  inserted with the default value, which is returned.
\<close>

definition defaultdict_getitem :: "('p::zero) totals \<Rightarrow> string \<Rightarrow> ('p \<times> nat) \<times> 'p totals" where
  "defaultdict_getitem totals k =
     (case map_of totals k of
        Some v \<Rightarrow> (v, totals)
      | None \<Rightarrow> ((0, 0), totals @ [(k, (0, 0))]))"

subsection \<open>get_total_price\<close>

text \<open>
  \<^verbatim>\<open>sum(xs)\<close> starts from 0 and adds the elements from left to right. (From CPython
  3.12 on, \<^verbatim>\<open>sum\<close> over floats also carries a compensation term, which changes the
  rounding of some float sums; the result is still a float, so a sum that no float
  represents is not returned by either version.)
\<close>

definition get_total_price :: "('p::{zero,plus}) MarketItem list \<Rightarrow> 'p" where
  "get_total_price items = foldl (+) 0 (map price items)"

subsection \<open>get_total_price_by_name\<close>

fun name_totals :: "('p::plus) MarketItem list \<Rightarrow> 'p totals \<Rightarrow> 'p totals" where
  "name_totals [] totals = totals"
| "name_totals (item # items) totals =
     name_totals items
       (case map_of totals (name item) of
          Some (total_price, count') \<Rightarrow>
            AList.update (name item) (total_price + price item, count' + 1) totals
        | None \<Rightarrow> AList.update (name item) (price item, 1) totals)"

definition get_total_price_by_name :: "('p::{plus,linorder}) MarketItem list \<Rightarrow> 'p totals" where
  "get_total_price_by_name items =
     dict_of (sorted_py (\<lambda>x. fst (snd x)) True (name_totals items []))"

subsection \<open>get_total_price_by_month\<close>

text \<open>
  The \<^verbatim>\<open>while current <= end\<close> loop of one record. The cursor advances through
  \<^verbatim>\<open>replace\<close>, which raises \<^verbatim>\<open>ValueError\<close> when the new date is out of range.
\<close>

function month_walk :: "('p::{zero,plus}) \<Rightarrow> datetime \<Rightarrow> datetime \<Rightarrow> 'p totals \<Rightarrow> error + 'p totals" where
  "month_walk p current end totals =
     (if date_le current end then
        (let month_str = strftime_Yb current;
             ((total_price, count'), totals1) = defaultdict_getitem totals month_str;
             totals2 = AList.update month_str (total_price + p, count' + 1) totals1
         in case (if month current = 12
                  then replace_year_month current (year current + 1) 1
                  else replace_month current (month current + 1)) of
              Inl e \<Rightarrow> Inl e
            | Inr next \<Rightarrow> month_walk p next end totals2)
      else Inr totals)"
  by pat_completeness auto
termination month_walk
  by (relation "measure (\<lambda>(p, current, end, totals).
                  (year end * 12 + 13) - (year current * 12 + month current))")
     (auto simp: date_le_def date_key_def replace_year_month_def replace_month_def
                 mk_datetime_def Let_def valid_datetime_def split: if_splits)

declare month_walk.simps [simp del]

text \<open>The body of \<^verbatim>\<open>for item in items\<close>: both cursors start on the first of their month.\<close>

definition accrue_item :: "('p::{zero,plus}) MarketItem \<Rightarrow> 'p totals \<Rightarrow> error + 'p totals" where
  "accrue_item item totals =
     (case replace_day (listed_on item) 1 of
        Inl e \<Rightarrow> Inl e
      | Inr current \<Rightarrow>
          (case replace_day (acted_on item) 1 of
             Inl e \<Rightarrow> Inl e
           | Inr end \<Rightarrow> month_walk (price item) current end totals))"

fun accrue_items :: "('p::{zero,plus}) MarketItem list \<Rightarrow> 'p totals \<Rightarrow> error + 'p totals" where
  "accrue_items [] totals = Inr totals"
| "accrue_items (item # items) totals =
     (case accrue_item item totals of
        Inl e \<Rightarrow> Inl e
      | Inr totals' \<Rightarrow> accrue_items items totals')"

text \<open>
  \<^verbatim>\<open>sorted(totals.items(), key=lambda x: datetime.strptime(x[0], "%Y-%b"))\<close>: the key
  of every entry is computed first, and a label that does not parse raises.
\<close>

definition sorted_by_month :: "'p totals \<Rightarrow> error + 'p totals" where
  "sorted_by_month kvs =
     (if list_all (\<lambda>x. \<not> isl (strptime_Yb (fst x))) kvs
      then Inr (sorted_py (\<lambda>x. date_key (projr (strptime_Yb (fst x)))) False kvs)
      else Inl ValueError)"

definition get_total_price_by_month :: "('p::{zero,plus}) MarketItem list \<Rightarrow> error + 'p totals" where
  "get_total_price_by_month items =
     (case accrue_items items [] of
        Inl e \<Rightarrow> Inl e
      | Inr totals \<Rightarrow>
          (case sorted_by_month totals of
             Inl e \<Rightarrow> Inl e
           | Inr totals_sorted \<Rightarrow> Inr (dict_of totals_sorted)))"

subsection \<open>Vocabulary of the statements about months\<close>

text \<open>
  The specification counts months with the index \<open>year * 12 + month\<close>. The span
  \<open>k\<close> of a record is the index of the month of \<^verbatim>\<open>acted_on\<close> minus the index of the
  month of \<^verbatim>\<open>listed_on\<close>, plus one. These definitions follow the specification's
  words, not the loop; the theorems relate them to \<open>month_walk\<close>.
\<close>

definition month_index :: "datetime \<Rightarrow> nat" where
  "month_index d = year d * 12 + month d"

definition month_of_index :: "nat \<Rightarrow> datetime" where
  "month_of_index i = \<lparr>year = (i - 1) div 12, month = (i - 1) mod 12 + 1, day = 1\<rparr>"

definition month_span :: "('p, 'z) MarketItem_scheme \<Rightarrow> int" where
  "month_span item = int (month_index (acted_on item)) - int (month_index (listed_on item)) + 1"

text \<open>The labels of the months from the month of \<^verbatim>\<open>listed_on\<close> through the month of \<^verbatim>\<open>acted_on\<close>.\<close>

definition span_labels :: "('p, 'z) MarketItem_scheme \<Rightarrow> string list" where
  "span_labels item =
     map (\<lambda>i. strftime_Yb (month_of_index i))
       [month_index (listed_on item) ..< Suc (month_index (acted_on item))]"

text \<open>The value of a bucket, a missing bucket counting as \<open>(0, 0)\<close>, and one accrual to it.\<close>

definition bucket :: "('p::zero) totals \<Rightarrow> string \<Rightarrow> 'p \<times> nat" where
  "bucket totals k = (case map_of totals k of Some v \<Rightarrow> v | None \<Rightarrow> (0, 0))"

definition accrue_month :: "('p::{zero,plus}) \<Rightarrow> string \<Rightarrow> 'p totals \<Rightarrow> 'p totals" where
  "accrue_month p k totals =
     AList.update k (fst (bucket totals k) + p, snd (bucket totals k) + 1) totals"

subsection \<open>Binary floating point on whole numbers\<close>

text \<open>
  The code computes prices in Python's \<^verbatim>\<open>float\<close>, an IEEE 754 binary64. Addition there
  is the exact sum rounded to 53 significant bits, ties to the even significand. The
  sum of two whole-number floats is again a whole number, so whole-number floats with
  this addition are a model of Python's addition on them (overflow to infinity, beyond
  about 1.8e308, is left out). They serve as a concrete price type on which rounding
  can be observed; the general statements below are about any price type.
\<close>

fun bit_length :: "nat \<Rightarrow> nat" where
  "bit_length n = (if n = 0 then 0 else Suc (bit_length (n div 2)))"

declare bit_length.simps [simp del]

definition round_binary64 :: "int \<Rightarrow> int" where
  "round_binary64 n =
     (if bit_length (nat \<bar>n\<bar>) \<le> 53 then n
      else
        (let s = bit_length (nat \<bar>n\<bar>) - 53;
             q = n div 2 ^ s;
             r = n mod 2 ^ s;
             h = 2 ^ (s - 1)
         in (if r < h then q else if h < r then q + 1 else if even q then q else q + 1) * 2 ^ s))"

text \<open>A float whose value is the whole number \<open>n\<close>.\<close>

datatype whole_float = WholeFloat (float_value: int)

instantiation whole_float :: "{zero,plus,linorder}"
begin

definition zero_whole_float :: whole_float where
  "zero_whole_float = WholeFloat 0"

fun plus_whole_float :: "whole_float \<Rightarrow> whole_float \<Rightarrow> whole_float" where
  "plus_whole_float (WholeFloat a) (WholeFloat b) = WholeFloat (round_binary64 (a + b))"

fun less_eq_whole_float :: "whole_float \<Rightarrow> whole_float \<Rightarrow> bool" where
  "less_eq_whole_float (WholeFloat a) (WholeFloat b) = (a \<le> b)"

fun less_whole_float :: "whole_float \<Rightarrow> whole_float \<Rightarrow> bool" where
  "less_whole_float (WholeFloat a) (WholeFloat b) = (a < b)"

instance
proof
  fix x y z :: whole_float
  obtain a where a: "x = WholeFloat a" by (cases x)
  obtain b where b: "y = WholeFloat b" by (cases y)
  obtain c where c: "z = WholeFloat c" by (cases z)
  show "(x < y) = (x \<le> y \<and> \<not> y \<le> x)" by (auto simp: a b)
  show "x \<le> x" by (simp add: a)
  show "x \<le> y \<Longrightarrow> y \<le> z \<Longrightarrow> x \<le> z" by (simp add: a b c)
  show "x \<le> y \<Longrightarrow> y \<le> x \<Longrightarrow> x = y" by (simp add: a b)
  show "x \<le> y \<or> y \<le> x" by (auto simp: a b)
qed

end

subsection \<open>Example records\<close>

definition date :: "nat \<Rightarrow> nat \<Rightarrow> nat \<Rightarrow> datetime" where
  "date y m d = \<lparr>year = y, month = m, day = d\<rparr>"

definition market_item :: "string \<Rightarrow> 'p \<Rightarrow> datetime \<Rightarrow> datetime \<Rightarrow> 'p MarketItem" where
  "market_item n p l a = \<lparr>name = n, price = p, currency = ''USD'', listed_on = l, acted_on = a\<rparr>"

definition example_items :: "int MarketItem list" where
  "example_items =
     [market_item ''Sword'' 5 (date 2024 1 10) (date 2024 3 2),
      market_item ''Key'' 12 (date 2023 11 30) (date 2024 1 1),
      market_item ''Sword'' 7 (date 2024 2 5) (date 2024 2 20),
      market_item ''Axe'' 20 (date 2024 3 1) (date 2024 3 1)]"

definition float_items :: "whole_float MarketItem list" where
  "float_items =
     [market_item ''Case'' (WholeFloat 10000000000000000) (date 2024 1 1) (date 2024 1 2),
      market_item ''Key'' (WholeFloat 1) (date 2024 1 1) (date 2024 1 2),
      market_item ''Key'' (WholeFloat 1) (date 2024 1 1) (date 2024 1 2)]"

definition same_month_reversed :: "int MarketItem" where
  "same_month_reversed = market_item ''Key'' 10 (date 2024 3 15) (date 2024 3 10)"

definition key_jan_mar :: "int MarketItem" where
  "key_jan_mar = market_item ''Key'' 10 (date 2024 1 1) (date 2024 3 1)"

definition key_reversed :: "int MarketItem" where
  "key_reversed = market_item ''Key'' 10 (date 2024 3 15) (date 2024 2 20)"


definition key_year_999 :: "int MarketItem" where
  "key_year_999 = market_item ''Key'' 10 (date 999 5 1) (date 999 5 1)"

definition key_dec_9999 :: "int MarketItem" where
  "key_dec_9999 = market_item ''Key'' 10 (date 9999 12 1) (date 9999 12 31)"

definition out_of_order_items :: "int MarketItem list" where
  "out_of_order_items =
     [market_item ''Bow'' 7 (date 2024 2 5) (date 2024 2 20),
      market_item ''Axe'' 5 (date 2024 1 10) (date 2024 1 12)]"

section \<open>Properties\<close>

subsection \<open>Sums, dictionaries and sorting\<close>

lemma foldl_plus_sum_list: "foldl (+) (a::'a::monoid_add) xs = a + sum_list xs"
  by (induction xs arbitrary: a) (simp_all add: add.assoc)

lemma get_total_price_sum_list:
  "get_total_price (items :: ('p::monoid_add) MarketItem list) = sum_list (map price items)"
  by (simp add: get_total_price_def foldl_plus_sum_list)

lemma update_fresh: "k \<notin> fst ` set al \<Longrightarrow> AList.update k v al = al @ [(k, v)]"
  by (induction al) auto

lemma dict_of_aux:
  "distinct (map fst (acc @ kvs)) \<Longrightarrow> foldl (\<lambda>d (k, v). AList.update k v d) acc kvs = acc @ kvs"
proof (induction kvs arbitrary: acc)
  case Nil
  then show ?case by simp
next
  case (Cons kv kvs)
  obtain k v where kv: "kv = (k, v)" by (cases kv)
  from Cons.prems have fresh: "k \<notin> fst ` set acc" by (auto simp: kv)
  from Cons.prems have "distinct (map fst ((acc @ [(k, v)]) @ kvs))" by (simp add: kv)
  from Cons.IH[OF this] show ?case by (simp add: kv update_fresh[OF fresh])
qed

lemma dict_of_distinct: "distinct (map fst kvs) \<Longrightarrow> dict_of kvs = kvs"
  using dict_of_aux[of "[]" kvs] by (simp add: dict_of_def)

lemma mset_sorted_py: "mset (sorted_py key r xs) = mset xs"
  by (simp add: sorted_py_def)

lemma set_sorted_py: "set (sorted_py key r xs) = set xs"
  by (simp add: sorted_py_def)

lemma distinct_keys_sorted_py:
  "distinct (map fst xs) \<Longrightarrow> distinct (map fst (sorted_py key r xs))"
proof -
  assume d: "distinct (map fst xs)"
  have h: "mset (map fst (sorted_py key r xs)) = mset (map fst xs)"
    by (simp add: mset_sorted_py)
  show ?thesis using mset_eq_imp_distinct_iff[OF h] d by blast
qed

lemma map_of_sorted_py:
  "distinct (map fst xs) \<Longrightarrow> map_of (sorted_py key r xs) = map_of xs"
  by (rule map_of_inject_set[THEN iffD2]) (simp_all add: distinct_keys_sorted_py set_sorted_py)

lemma sorted_py_descending:
  "sorted_wrt (\<lambda>a b. key a \<ge> key b) (sorted_py key True xs)"
proof -
  have "sorted (map key (sort_key key (rev xs)))" by (rule sorted_sort_key)
  then have "sorted_wrt (\<lambda>a b. key a \<le> key b) (sort_key key (rev xs))"
    by (simp add: sorted_map)
  then show ?thesis
    by (simp add: sorted_py_def sorted_wrt_rev)
qed

lemma sorted_py_ascending:
  "sorted_wrt (\<lambda>a b. key a \<le> key b) (sorted_py key False xs)"
  using sorted_sort_key[of key xs] by (simp add: sorted_py_def sorted_map)

lemma distinct_name_totals:
  "distinct (map fst totals) \<Longrightarrow> distinct (map fst (name_totals items totals))"
  by (induction items arbitrary: totals) (auto simp: distinct_update split: option.splits)

lemma map_of_name_totals:
  fixes items :: "('p::monoid_add) MarketItem list"
  shows "map_of (name_totals items totals) n =
     (let ps = map price (filter (\<lambda>x. name x = n) items)
      in if ps = [] then map_of totals n
         else Some (case map_of totals n of
                      None \<Rightarrow> (sum_list ps, length ps)
                    | Some (t, c) \<Rightarrow> (t + sum_list ps, c + length ps)))"
proof (induction items arbitrary: totals)
  case Nil
  then show ?case by simp
next
  case (Cons item items)
  show ?case
    by (simp add: Cons.IH update_conv' Let_def add.assoc split: option.splits)
qed

lemma sum_totals_update_Some:
  fixes totals :: "('p::comm_monoid_add) totals"
  shows "map_of totals k = Some (t, c) \<Longrightarrow>
     sum_list (map (\<lambda>x. fst (snd x)) (AList.update k (t + p, c') totals))
       = sum_list (map (\<lambda>x. fst (snd x)) totals) + p"
  by (induction totals) (auto simp: ac_simps)

lemma sum_totals_update_None:
  fixes totals :: "('p::comm_monoid_add) totals"
  shows "map_of totals k = None \<Longrightarrow>
     sum_list (map (\<lambda>x. fst (snd x)) (AList.update k (p, c') totals))
       = sum_list (map (\<lambda>x. fst (snd x)) totals) + p"
  by (induction totals) (auto simp: ac_simps)

lemma sum_name_totals:
  fixes items :: "('p::comm_monoid_add) MarketItem list"
  shows "sum_list (map (\<lambda>x. fst (snd x)) (name_totals items totals))
     = sum_list (map (\<lambda>x. fst (snd x)) totals) + sum_list (map price items)"
  by (induction items arbitrary: totals)
     (auto simp: sum_totals_update_Some sum_totals_update_None ac_simps split: option.splits)

lemma sum_list_sorted_py:
  fixes f :: "'a \<Rightarrow> 'b::comm_monoid_add"
  shows "sum_list (map f (sorted_py key r xs)) = sum_list (map f xs)"
proof -
  have "mset (map f (sorted_py key r xs)) = mset (map f xs)"
    by (simp add: mset_sorted_py)
  then show ?thesis by (metis sum_mset_sum_list)
qed

lemma count_totals_update_Some:
  fixes totals :: "'p totals"
  shows "map_of totals k = Some (t, c) \<Longrightarrow>
     sum_list (map (\<lambda>x. snd (snd x)) (AList.update k (t', Suc c) totals))
       = Suc (sum_list (map (\<lambda>x. snd (snd x)) totals))"
  by (induction totals) auto

lemma count_totals_update_None:
  fixes totals :: "'p totals"
  shows "map_of totals k = None \<Longrightarrow>
     sum_list (map (\<lambda>x. snd (snd x)) (AList.update k (t', Suc 0) totals))
       = Suc (sum_list (map (\<lambda>x. snd (snd x)) totals))"
  by (induction totals) auto

lemma count_name_totals:
  fixes totals :: "('p::plus) totals"
  shows "sum_list (map (\<lambda>x. snd (snd x)) (name_totals items totals))
     = sum_list (map (\<lambda>x. snd (snd x)) totals) + length items"
  by (induction items arbitrary: totals)
     (auto simp: count_totals_update_Some count_totals_update_None split: option.splits)

lemma positive_update:
  fixes totals :: "'p totals"
  shows "\<forall>x \<in> set totals. 1 \<le> snd (snd x) \<Longrightarrow> 1 \<le> c \<Longrightarrow>
     \<forall>x \<in> set (AList.update k (t, c) totals). 1 \<le> snd (snd x)"
  by (induction totals) auto

lemma positive_name_totals:
  fixes totals :: "('p::plus) totals"
  shows "\<forall>x \<in> set totals. 1 \<le> snd (snd x) \<Longrightarrow>
     \<forall>x \<in> set (name_totals items totals). 1 \<le> snd (snd x)"
proof (induction items arbitrary: totals)
  case Nil
  then show ?case by simp
next
  case (Cons item items)
  show ?case
  proof (cases "map_of totals (name item)")
    case None
    have "\<forall>x \<in> set (AList.update (name item) (price item, 1) totals). 1 \<le> snd (snd x)"
      by (rule positive_update[OF Cons.prems]) simp
    from Cons.IH[OF this] show ?thesis by (simp add: None)
  next
    case (Some v)
    obtain t c where v: "v = (t, c)" by (cases v)
    have "\<forall>x \<in> set (AList.update (name item) (t + price item, c + 1) totals). 1 \<le> snd (snd x)"
      by (rule positive_update[OF Cons.prems]) simp
    from Cons.IH[OF this] show ?thesis by (simp add: Some v)
  qed
qed

lemma distinct_by_name_totals: "distinct (map fst (name_totals items []))"
  by (rule distinct_name_totals) simp

lemma get_total_price_by_name_eq:
  "get_total_price_by_name items = sorted_py (\<lambda>x. fst (snd x)) True (name_totals items [])"
  unfolding get_total_price_by_name_def
  by (rule dict_of_distinct) (rule distinct_keys_sorted_py, rule distinct_by_name_totals)

lemma example_by_name:
  "get_total_price_by_name example_items = [(''Axe'', 20, 1), (''Sword'', 12, 2), (''Key'', 12, 1)]"
  by code_simp

subsection \<open>Totals by item name and the overall total\<close>

lemma map_of_name_totals_fold:
  fixes items :: "('p::plus) MarketItem list"
  shows "map_of (name_totals items totals) n =
     (case map price (filter (\<lambda>x. name x = n) items) of
        [] \<Rightarrow> map_of totals n
      | p # ps \<Rightarrow>
          Some (case map_of totals n of
                  None \<Rightarrow> (foldl (+) p ps, Suc (length ps))
                | Some (t, c) \<Rightarrow> (foldl (+) t (p # ps), c + Suc (length ps))))"
proof (induction items arbitrary: totals)
  case Nil
  then show ?case by simp
next
  case (Cons item items)
  define ps where "ps = map price (filter (\<lambda>x. name x = n) items)"
  define totals' where "totals' =
     (case map_of totals (name item) of
        Some (total_price, count') \<Rightarrow>
          AList.update (name item) (total_price + price item, count' + 1) totals
      | None \<Rightarrow> AList.update (name item) (price item, 1) totals)"
  note IH = Cons.IH[of totals', folded ps_def]
  have goal: "map_of (name_totals (item # items) totals) n = map_of (name_totals items totals') n"
    by (simp add: totals'_def)
  show ?case
  proof (cases "name item = n")
    case False
    then have eq: "map_of totals' n = map_of totals n"
      by (auto simp: totals'_def update_conv' split: option.splits)
    have f: "map price (filter (\<lambda>x. name x = n) (item # items)) = ps"
      using False by (simp add: ps_def)
    show ?thesis unfolding goal f IH eq ..
  next
    case True
    have f: "map price (filter (\<lambda>x. name x = n) (item # items)) = price item # ps"
      using True by (simp add: ps_def)
    show ?thesis
    proof (cases "map_of totals n")
      case None
      then have m: "map_of totals' n = Some (price item, 1)"
        using True by (simp add: totals'_def update_conv')
      show ?thesis unfolding goal f IH m None by (cases ps) simp_all
    next
      case (Some v)
      obtain t c where v: "v = (t, c)" by (cases v)
      have m: "map_of totals' n = Some (t + price item, c + 1)"
        using True Some v by (simp add: totals'_def update_conv')
      show ?thesis unfolding goal f IH m Some v by (cases ps) simp_all
    qed
  qed
qed

text \<open>
  Claim C3. For every input sequence and every item name \<open>n\<close>, let \<open>p # ps\<close> be the
  prices of the records named \<open>n\<close>, in input order. \<^verbatim>\<open>get_total_price_by_name\<close> maps
  \<open>n\<close> to the pair (\<open>p\<close> plus the prices \<open>ps\<close> added one after the other, number of
  those records); a name that occurs once is mapped to (its record's price, 1); a name
  that does not occur is not a key. The keys of the result are distinct. No law of
  addition is used. In a monoid the first component is \<open>sum_list\<close> of the prices
  (lemma \<open>by_name_totals_sum_list\<close> below).
\<close>

theorem by_name_totals:
  fixes items :: "('p::{linorder,plus}) MarketItem list"
  shows "map_of (get_total_price_by_name items) n =
           (case map price (filter (\<lambda>x. name x = n) items) of
              [] \<Rightarrow> None
            | p # ps \<Rightarrow> Some (foldl (+) p ps, Suc (length ps)))
         \<and> (n \<notin> name ` set items \<longrightarrow> map_of (get_total_price_by_name items) n = None)
         \<and> distinct (map fst (get_total_price_by_name items))"
proof -
  have e: "n \<notin> name ` set items \<Longrightarrow> filter (\<lambda>x. name x = n) items = []"
    by (auto simp: filter_empty_conv)
  have m: "map_of (get_total_price_by_name items) n =
           (case map price (filter (\<lambda>x. name x = n) items) of
              [] \<Rightarrow> None
            | p # ps \<Rightarrow> Some (foldl (+) p ps, Suc (length ps)))"
    by (simp add: get_total_price_by_name_eq map_of_sorted_py distinct_by_name_totals
        map_of_name_totals_fold split: list.splits)
  show ?thesis
    using m e
    by (simp add: get_total_price_by_name_eq distinct_by_name_totals distinct_keys_sorted_py)
qed

theorem by_name_totals_witness:
  "map_of (get_total_price_by_name example_items) ''Sword'' = Some (12, 2)
   \<and> map_of (get_total_price_by_name example_items) ''Axe'' = Some (20, 1)
   \<and> map_of (get_total_price_by_name example_items) ''Bow'' = None"
  using by_name_totals[of example_items "''Sword''"] by_name_totals[of example_items "''Axe''"]
    by_name_totals[of example_items "''Bow''"]
  by (simp add: example_items_def market_item_def)

text \<open>The same with \<open>sum_list\<close>, for prices in a monoid.\<close>

lemma by_name_totals_sum_list:
  fixes items :: "('p::{linorder,monoid_add}) MarketItem list"
  shows "map_of (get_total_price_by_name items) n =
           (if n \<in> name ` set items
            then Some (sum_list (map price (filter (\<lambda>x. name x = n) items)),
                       length (filter (\<lambda>x. name x = n) items))
            else None)
         \<and> distinct (map fst (get_total_price_by_name items))"
proof -
  have "filter (\<lambda>x. name x = n) items = [] \<longleftrightarrow> n \<notin> name ` set items"
    by (auto simp: filter_empty_conv)
  then show ?thesis
    by (simp add: get_total_price_by_name_eq map_of_sorted_py distinct_by_name_totals
        distinct_keys_sorted_py map_of_name_totals Let_def)
qed

text \<open>
  Claim C4. The entries returned by \<^verbatim>\<open>get_total_price_by_name\<close> are ordered by total price
  descending: for every adjacent pair, the total of the first is at least the total of
  the second.
\<close>

theorem by_name_sorted:
  fixes items :: "('p::{linorder,plus}) MarketItem list"
  shows "\<forall>i. Suc i < length (get_total_price_by_name items) \<longrightarrow>
           fst (snd (get_total_price_by_name items ! Suc i))
             \<le> fst (snd (get_total_price_by_name items ! i))"
proof (intro allI impI)
  fix i assume len: "Suc i < length (get_total_price_by_name items)"
  have "sorted_wrt (\<lambda>a b. fst (snd a) \<ge> fst (snd b)) (get_total_price_by_name items)"
    unfolding get_total_price_by_name_eq by (rule sorted_py_descending)
  from sorted_wrt_nth_less[OF this _ len, of i]
  show "fst (snd (get_total_price_by_name items ! Suc i))
             \<le> fst (snd (get_total_price_by_name items ! i))"
    by simp
qed

theorem by_name_sorted_witness:
  "Suc 0 < length (get_total_price_by_name example_items)
   \<and> fst (snd (get_total_price_by_name example_items ! Suc 0))
        \<le> fst (snd (get_total_price_by_name example_items ! 0))
   \<and> fst (snd (get_total_price_by_name example_items ! 0)) = 20
   \<and> fst (snd (get_total_price_by_name example_items ! Suc 0)) = 12"
  using by_name_sorted[of example_items, rule_format, of 0]
  by (simp add: example_by_name)

lemma bit_length_1: "bit_length (Suc 0) = 1" "bit_length 2 = 2"
  by (simp_all add: bit_length.simps)

lemma bit_length_big:
  "bit_length 10000000000000000 = 54" "bit_length 10000000000000001 = 54"
  "bit_length 10000000000000002 = 54"
  "bit_length 9007199254740992 = 54" "bit_length 9007199254740993 = 54"
  by (simp_all add: bit_length.simps)

lemma round_binary64_examples:
  "round_binary64 1 = 1" "round_binary64 2 = 2"
  "round_binary64 10000000000000000 = 10000000000000000"
  "round_binary64 10000000000000001 = 10000000000000000"
  "round_binary64 10000000000000002 = 10000000000000002"
  "round_binary64 9007199254740992 = 9007199254740992"
  "round_binary64 9007199254740993 = 9007199254740992"
  by (simp_all add: round_binary64_def bit_length_1 bit_length_big Let_def)





lemma float_items_total:
  "get_total_price float_items = WholeFloat 10000000000000000"
  by (simp add: get_total_price_def float_items_def market_item_def zero_whole_float_def
      round_binary64_examples)

lemma float_items_by_name:
  "get_total_price_by_name float_items
     = [(''Case'', WholeFloat 10000000000000000, 1), (''Key'', WholeFloat 2, 2)]"
  by (simp add: get_total_price_by_name_def float_items_def market_item_def sorted_py_def
      dict_of_def round_binary64_examples)

text \<open>
  Claim C7, as stated, fails for the type of price the code computes with. With prices
  1e16 for Case and 1.0 twice for Key, \<^verbatim>\<open>get_total_price\<close> adds 1.0 to 1e16 twice and
  each sum rounds back to 1e16, while the by-name totals are 1e16 and 2.0 and add up
  to 1.0000000000000002e16.
\<close>

theorem by_name_sum_total_float_counterexample:
  "foldl (+) 0 (map (fst \<circ> snd) (get_total_price_by_name float_items))
     \<noteq> get_total_price float_items"
proof -
  have "foldl (+) 0 (map (fst \<circ> snd) (get_total_price_by_name float_items))
          = WholeFloat 10000000000000002"
    by (simp add: float_items_by_name zero_whole_float_def round_binary64_examples)
  then show ?thesis by (simp add: float_items_total)
qed

text \<open>
  Claim C7, amended. When price addition is exact, that is associative and commutative
  with 0 neutral (decimal amounts, integers), the total prices of all entries returned
  by \<^verbatim>\<open>get_total_price_by_name\<close>, added with \<^verbatim>\<open>sum\<close>, give the value returned by
  \<^verbatim>\<open>get_total_price\<close> on the same sequence.
\<close>

theorem by_name_sum_total:
  fixes items :: "('p::{linorder,comm_monoid_add}) MarketItem list"
  shows "foldl (+) 0 (map (fst \<circ> snd) (get_total_price_by_name items)) = get_total_price items"
proof -
  have "foldl (+) 0 (map (fst \<circ> snd) (get_total_price_by_name items))
          = sum_list (map (\<lambda>x. fst (snd x)) (get_total_price_by_name items))"
    by (simp add: foldl_plus_sum_list comp_def)
  also have "\<dots> = get_total_price items"
    by (simp add: get_total_price_by_name_eq sum_list_sorted_py sum_name_totals
        get_total_price_sum_list)
  finally show ?thesis .
qed

theorem by_name_sum_total_witness:
  "foldl (+) 0 (map (fst \<circ> snd) (get_total_price_by_name example_items)) = 44
   \<and> get_total_price example_items = 44"
  using by_name_sum_total[of example_items]
  by (simp add: example_by_name)

text \<open>
  Claim C10. The counts of all entries returned by \<^verbatim>\<open>get_total_price_by_name\<close> add up to
  the number of records in the input, and every count is at least 1.
\<close>

theorem by_name_counts:
  fixes items :: "('p::{linorder,plus}) MarketItem list"
  shows "sum_list (map (\<lambda>x. snd (snd x)) (get_total_price_by_name items)) = length items
         \<and> (\<forall>x \<in> set (get_total_price_by_name items). 1 \<le> snd (snd x))"
proof -
  have "\<forall>x \<in> set (name_totals items []). 1 \<le> snd (snd x)"
    by (rule positive_name_totals) simp
  then show ?thesis
    by (simp add: get_total_price_by_name_eq sum_list_sorted_py count_name_totals set_sorted_py)
qed

theorem by_name_counts_witness:
  "sum_list (map (\<lambda>x. snd (snd x)) (get_total_price_by_name example_items)) = 4
   \<and> length example_items = 4
   \<and> (''Sword'', 12, 2) \<in> set (get_total_price_by_name example_items) \<and> (1::nat) \<le> 2"
  using by_name_counts[of example_items]
  by (simp add: example_by_name)

subsection \<open>Month labels: writing and parsing\<close>

lemma digit_char_roundtrip: "n < 10 \<Longrightarrow> is_digit (digit_char n) \<and> digit_val (digit_char n) = n"
  by (simp add: is_digit_def digit_val_def digit_char_def)

lemma hyphen_not_digit: "\<not> is_digit CHR ''-''"
  by (simp add: is_digit_def)

lemma undecimal_decimal: "undecimal (decimal n) = n"
proof (induction n rule: decimal.induct)
  case (1 n)
  show ?case
  proof (cases "n < 10")
    case True
    then show ?thesis
      by (subst decimal.simps) (simp add: undecimal_def digit_char_roundtrip)
  next
    case False
    then have d: "n mod 10 < 10" by simp
    have "undecimal (decimal n) = undecimal (decimal (n div 10)) * 10 + n mod 10"
      using False
      by (subst decimal.simps) (simp add: undecimal_def digit_char_roundtrip[OF d])
    also have "\<dots> = n div 10 * 10 + n mod 10" using "1.IH"[OF False] by simp
    finally show ?thesis by simp
  qed
qed

lemma decimal_inj: "decimal a = decimal b \<Longrightarrow> a = b"
  by (metis undecimal_decimal)

lemma decimal_digits:
  "n < 10 \<Longrightarrow> decimal n = [digit_char n]"
  "10 \<le> n \<Longrightarrow> decimal n = decimal (n div 10) @ [digit_char (n mod 10)]"
  by (subst decimal.simps, simp)+

lemma year_digits:
  fixes y :: nat
  assumes "y < 10000"
  shows "(y div 1000 mod 10) * 1000 + (y div 100 mod 10) * 100 + (y div 10 mod 10) * 10 + y mod 10 = y"
proof -
  define a where "a = y div 10"
  define b where "b = a div 10"
  define c where "c = b div 10"
  define r0 where "r0 = y mod 10"
  define r1 where "r1 = a mod 10"
  define r2 where "r2 = b mod 10"
  have e0: "y = a * 10 + r0" unfolding a_def r0_def by simp
  have e1: "a = b * 10 + r1" unfolding b_def r1_def by simp
  have e2: "b = c * 10 + r2" unfolding c_def r2_def by simp
  have d100: "y div 100 = b" unfolding b_def a_def by (simp add: div_mult2_eq)
  have d1000: "y div 1000 = c" unfolding c_def b_def a_def by (simp add: div_mult2_eq)
  have "c < 10" using assms e0 e1 e2 by linarith
  then have c: "c mod 10 = c" by simp
  have "c * 1000 + r2 * 100 + r1 * 10 + r0 = y" using e0 e1 e2 by linarith
  then show ?thesis
    unfolding d100 d1000 c by (simp only: a_def[symmetric] r0_def r1_def r2_def)
qed

lemma month_cases:
  fixes m :: nat
  assumes "Suc 0 \<le> m" "m \<le> 12"
  shows "m = 1 \<or> m = 2 \<or> m = 3 \<or> m = 4 \<or> m = 5 \<or> m = 6 \<or> m = 7 \<or> m = 8 \<or> m = 9
         \<or> m = 10 \<or> m = 11 \<or> m = 12"
  using assms by arith

lemma month_abbr_table:
  "zip month_abbr [Suc 0 ..< 13] =
     [(''Jan'', 1), (''Feb'', 2), (''Mar'', 3), (''Apr'', 4), (''May'', 5), (''Jun'', 6),
      (''Jul'', 7), (''Aug'', 8), (''Sep'', 9), (''Oct'', 10), (''Nov'', 11), (''Dec'', 12)]"
  by (simp add: month_abbr_def upt_conv_Cons)

lemma month_abbr_roundtrip:
  assumes "Suc 0 \<le> m" "m \<le> 12"
  shows "map_of (zip month_abbr [Suc 0 ..< 13]) (month_abbr ! (m - Suc 0)) = Some m"
  unfolding month_abbr_table
  using month_cases[OF assms] by (elim disjE) (simp_all add: month_abbr_def)

lemma strptime_Yb_label:
  assumes "a < 10" "b < 10" "c < 10" "e < 10" "Suc 0 \<le> m" "m \<le> 12"
  shows "strptime_Yb ([digit_char a, digit_char b, digit_char c, digit_char e] @ ''-'' @ month_abbr ! (m - 1))
           = mk_datetime (a * 1000 + b * 100 + c * 10 + e) m 1"
  using assms
  by (simp add: strptime_Yb_def digit_char_roundtrip month_abbr_roundtrip del: upt_Suc)

lemma digit_char_values:
  "digit_char 0 = CHR ''0''" "digit_char 1 = CHR ''1''" "digit_char 2 = CHR ''2''"
  "digit_char 3 = CHR ''3''" "digit_char 4 = CHR ''4''" "digit_char 5 = CHR ''5''"
  "digit_char 6 = CHR ''6''" "digit_char 7 = CHR ''7''" "digit_char 8 = CHR ''8''"
  "digit_char 9 = CHR ''9''"
  by (simp_all add: digit_char_def char_of_def bit_Suc_0_iff bit_0)

lemma decimal_four:
  assumes "1000 \<le> y" "y < 10000"
  shows "decimal y = [digit_char (y div 1000 mod 10), digit_char (y div 100 mod 10),
                      digit_char (y div 10 mod 10), digit_char (y mod 10)]"
proof -
  define a where "a = y div 10"
  define b where "b = a div 10"
  define c where "c = b div 10"
  have e0: "y = a * 10 + y mod 10" unfolding a_def by simp
  have e1: "a = b * 10 + a mod 10" unfolding b_def by simp
  have e2: "b = c * 10 + b mod 10" unfolding c_def by simp
  have r: "y mod 10 < 10" "a mod 10 < 10" "b mod 10 < 10" by simp_all
  have a: "10 \<le> a" using assms e0 r by linarith
  have b: "10 \<le> b" using assms e0 e1 r by linarith
  have c: "c < 10" using assms e0 e1 e2 by linarith
  have d100: "y div 100 = b" unfolding b_def a_def by (simp add: div_mult2_eq)
  have d1000: "y div 1000 = c" unfolding c_def b_def a_def by (simp add: div_mult2_eq)
  have y: "10 \<le> y" using assms by simp
  have "decimal y = decimal a @ [digit_char (y mod 10)]"
    unfolding a_def using y by (rule decimal_digits(2))
  also have "decimal a = decimal b @ [digit_char (a mod 10)]"
    unfolding b_def using a by (rule decimal_digits(2))
  also have "decimal b = decimal c @ [digit_char (b mod 10)]"
    unfolding c_def using b by (rule decimal_digits(2))
  also have "decimal c = [digit_char c]" using c by (rule decimal_digits(1))
  finally have "decimal y = [digit_char c, digit_char (b mod 10), digit_char (a mod 10),
                             digit_char (y mod 10)]"
    by simp
  moreover have "c mod 10 = c" using c by simp
  ultimately show ?thesis unfolding d100 d1000 a_def[symmetric] by simp
qed

lemma decimal_short:
  assumes "y < 1000"
  shows "(\<exists>p. decimal y = [p]) \<or> (\<exists>p q. decimal y = [p, q]) \<or> (\<exists>p q r. decimal y = [p, q, r])"
proof -
  define a where "a = y div 10"
  define b where "b = a div 10"
  have e0: "y = a * 10 + y mod 10" unfolding a_def by simp
  have e1: "a = b * 10 + a mod 10" unfolding b_def by simp
  have r: "y mod 10 < 10" "a mod 10 < 10" by simp_all
  show ?thesis
  proof (cases "y < 10")
    case True
    then show ?thesis by (simp add: decimal_digits(1))
  next
    case False
    then have y: "10 \<le> y" by simp
    have dy: "decimal y = decimal a @ [digit_char (y mod 10)]"
      unfolding a_def using y by (rule decimal_digits(2))
    show ?thesis
    proof (cases "a < 10")
      case True
      then show ?thesis by (simp add: dy decimal_digits(1))
    next
      case False
      then have a: "10 \<le> a" by simp
      have da: "decimal a = decimal b @ [digit_char (a mod 10)]"
        unfolding b_def using a by (rule decimal_digits(2))
      have "b < 10" using assms e0 e1 r by linarith
      then show ?thesis by (simp add: dy da decimal_digits(1))
    qed
  qed
qed

lemma month_abbr_three:
  assumes "Suc 0 \<le> m" "m \<le> 12"
  shows "\<exists>x y z. month_abbr ! (m - Suc 0) = [x, y, z]"
  using month_cases[OF assms] by (elim disjE) (simp_all add: month_abbr_def)

lemma strptime_short_year:
  assumes "year d < 1000" "Suc 0 \<le> month d" "month d \<le> 12"
  shows "strptime_Yb (strftime_Yb d) = Inl ValueError"
proof -
  from month_abbr_three[OF assms(2,3)] obtain x y z
    where m: "month_abbr ! (month d - Suc 0) = [x, y, z]" by blast
  from decimal_short[OF assms(1)] show ?thesis
    by (elim disjE exE) (simp_all add: strftime_Yb_def strptime_Yb_def m hyphen_not_digit)
qed


lemma decimal_examples: "decimal 2024 = ''2024''" "decimal 999 = ''999''"
  by (simp_all add: decimal.simps digit_char_values)

lemma strptime_strftime:
  assumes "valid_datetime d" "1000 \<le> year d"
  shows "strptime_Yb (strftime_Yb d) = Inr \<lparr>year = year d, month = month d, day = 1\<rparr>"
proof -
  from assms have y: "year d < 10000" and m: "Suc 0 \<le> month d" "month d \<le> 12"
    by (simp_all add: valid_datetime_def MINYEAR_def MAXYEAR_def)
  have v: "valid_datetime \<lparr>year = year d, month = month d, day = 1\<rparr>"
    using assms y m by (simp add: valid_datetime_def MINYEAR_def MAXYEAR_def days_in_month_def)
  have "strptime_Yb (strftime_Yb d) =
          mk_datetime ((year d div 1000 mod 10) * 1000 + (year d div 100 mod 10) * 100
                       + (year d div 10 mod 10) * 10 + year d mod 10) (month d) 1"
    unfolding strftime_Yb_def decimal_four[OF assms(2) y]
    by (rule strptime_Yb_label) (use m in simp_all)
  also have "\<dots> = mk_datetime (year d) (month d) 1"
    by (simp only: year_digits[OF y])
  also have "\<dots> = Inr \<lparr>year = year d, month = month d, day = 1\<rparr>"
    using v by (simp add: mk_datetime_def)
  finally show ?thesis .
qed

lemma strftime_inj:
  assumes "Suc 0 \<le> month a" "month a \<le> 12" "Suc 0 \<le> month b" "month b \<le> 12"
    and "strftime_Yb a = strftime_Yb b"
  shows "year a = year b \<and> month a = month b"
proof -
  from month_abbr_three[OF assms(1,2)] obtain x y z
    where ma: "month_abbr ! (month a - Suc 0) = [x, y, z]" by blast
  from month_abbr_three[OF assms(3,4)] obtain x' y' z'
    where mb: "month_abbr ! (month b - Suc 0) = [x', y', z']" by blast
  have la: "length (''-'' @ month_abbr ! (month a - 1)) = length (''-'' @ month_abbr ! (month b - 1))"
    by (simp add: ma mb)
  from assms(5) have eq: "decimal (year a) @ (''-'' @ month_abbr ! (month a - 1))
                        = decimal (year b) @ (''-'' @ month_abbr ! (month b - 1))"
    unfolding strftime_Yb_def .
  have "decimal (year a) = decimal (year b)
             \<and> ''-'' @ month_abbr ! (month a - 1) = ''-'' @ month_abbr ! (month b - 1)"
    by (rule iffD1[OF append_eq_append_conv[OF disjI2[OF la]] eq])
  then have e: "decimal (year a) = decimal (year b)"
    and f: "month_abbr ! (month a - Suc 0) = month_abbr ! (month b - Suc 0)"
    by simp_all
  from e have "year a = year b" by (rule decimal_inj)
  moreover have "Some (month a) = Some (month b)"
    using month_abbr_roundtrip[OF assms(1,2)] month_abbr_roundtrip[OF assms(3,4)]
    unfolding f by (rule trans[OF sym])
  ultimately show ?thesis by simp
qed

subsection \<open>The month walk of one record\<close>

lemma month_index_of_index:
  "13 \<le> i \<Longrightarrow> month_index (month_of_index i) = i"
  by (simp add: month_index_def month_of_index_def) 

lemma days_in_month_pos: "Suc 0 \<le> days_in_month y m"
  by (simp add: days_in_month_def)

lemma month_of_index_valid:
  assumes "13 \<le> i" "i \<le> 120000"
  shows "valid_datetime (month_of_index i)"
proof -
  have "12 div 12 \<le> (i - 1) div 12" by (rule div_le_mono) (use assms in simp)
  then have lo: "Suc 0 \<le> (i - 1) div 12" by simp
  have "(i - 1) div 12 \<le> 119999 div 12" by (rule div_le_mono) (use assms in simp)
  then have hi: "(i - 1) div 12 \<le> 9999" by simp
  show ?thesis using lo hi
    by (simp add: valid_datetime_def month_of_index_def MINYEAR_def MAXYEAR_def days_in_month_pos)
qed
    
lemma month_index_range:
  "valid_datetime d \<Longrightarrow> 13 \<le> month_index d \<and> month_index d \<le> 120000"
  by (simp add: valid_datetime_def month_index_def MINYEAR_def MAXYEAR_def)

lemma month_of_index_index:
  assumes "valid_datetime d"
  shows "month_of_index (month_index d) = \<lparr>year = year d, month = month d, day = 1\<rparr>"
proof -
  from assms obtain n where n: "month d = Suc n" "n < 12"
    by (cases "month d") (simp_all add: valid_datetime_def)
  show ?thesis by (simp add: month_index_def month_of_index_def n)
qed


lemma date_le_month_index:
  assumes "valid_datetime c" "valid_datetime e" "day c = 1" "day e = 1"
  shows "date_le c e \<longleftrightarrow> month_index c \<le> month_index e"
proof -
  from assms have "1 \<le> month c" "month c \<le> 12" "1 \<le> month e" "month e \<le> 12"
    by (simp_all add: valid_datetime_def)
  then show ?thesis using assms(3,4)
    by (auto simp: date_le_def date_key_def month_index_def)
qed

lemma advance_month:
  assumes "valid_datetime c" "day c = 1"
  shows "(if month c = 12 then replace_year_month c (year c + 1) 1
          else replace_month c (month c + 1))
         = (if month_index c = 120000 then Inl ValueError
            else Inr (month_of_index (Suc (month_index c))))"
proof -
  from assms have b: "1 \<le> year c" "year c \<le> 9999" "1 \<le> month c" "month c \<le> 12"
    by (simp_all add: valid_datetime_def MINYEAR_def MAXYEAR_def)
  show ?thesis
  proof (cases "month c = 12")
    case True
    then have "month_index c = 120000 \<longleftrightarrow> year c = 9999"
      by (simp add: month_index_def)
    then show ?thesis using True b assms(2)
      by (auto simp: replace_year_month_def mk_datetime_def valid_datetime_def MINYEAR_def
          MAXYEAR_def days_in_month_def month_index_def month_of_index_def)
  next
    case False
    with b have lt: "month c < 12" by simp
    then have "month_index c \<noteq> 120000" using b by (simp add: month_index_def)
    then show ?thesis using False b lt assms(2)
      by (simp add: replace_month_def mk_datetime_def valid_datetime_def MINYEAR_def
          MAXYEAR_def days_in_month_pos month_index_def month_of_index_def)
  qed
qed

lemma update_appended:
  "k \<notin> fst ` set al \<Longrightarrow> AList.update k v (al @ [(k, w)]) = al @ [(k, v)]"
  by (induction al) auto

lemma accrue_month_step:
  "(case defaultdict_getitem totals k of
      ((total_price, count'), totals1) \<Rightarrow> AList.update k (total_price + p, count' + 1) totals1)
   = accrue_month p k totals"
proof (cases "map_of totals k")
  case None
  then have "k \<notin> fst ` set totals" by (simp add: map_of_eq_None_iff)
  then show ?thesis
    by (simp add: defaultdict_getitem_def accrue_month_def bucket_def None update_appended update_fresh)
next
  case (Some v)
  then show ?thesis
    by (cases v) (simp add: defaultdict_getitem_def accrue_month_def bucket_def)
qed

lemma month_walk_unfold:
  "month_walk p current end totals =
     (if date_le current end then
        (case (if month current = 12
               then replace_year_month current (year current + 1) 1
               else replace_month current (month current + 1)) of
           Inl e \<Rightarrow> Inl e
         | Inr next \<Rightarrow> month_walk p next end (accrue_month p (strftime_Yb current) totals))
      else Inr totals)"
proof -
  obtain ab x2 where "defaultdict_getitem totals (strftime_Yb current) = (ab, x2)"
    by (cases "defaultdict_getitem totals (strftime_Yb current)")
  moreover obtain a b where "ab = (a, b)" by (cases ab)
  ultimately have g: "defaultdict_getitem totals (strftime_Yb current) = ((a, b), x2)"
    by simp
  have u: "AList.update (strftime_Yb current) (a + p, Suc b) x2
             = accrue_month p (strftime_Yb current) totals"
    using accrue_month_step[where totals = totals and k = "strftime_Yb current" and p = p]
    by (simp add: g)
  have "month_walk p current end totals =
     (if date_le current end then
        (case (if month current = 12
               then replace_year_month current (year current + 1) 1
               else replace_month current (month current + 1)) of
           Inl e \<Rightarrow> Inl e
         | Inr next \<Rightarrow>
             month_walk p next end (AList.update (strftime_Yb current) (a + p, Suc b) x2))
      else Inr totals)"
    by (subst month_walk.simps) (simp add: Let_def g)
  then show ?thesis unfolding u .
qed


lemma date_le_of_index:
  assumes "13 \<le> i" "i \<le> 120000" "13 \<le> j" "j \<le> 120000"
  shows "date_le (month_of_index i) (month_of_index j) \<longleftrightarrow> i \<le> j"
proof -
  have "date_le (month_of_index i) (month_of_index j)
          \<longleftrightarrow> month_index (month_of_index i) \<le> month_index (month_of_index j)"
    by (rule date_le_month_index)
       (simp_all add: month_of_index_valid assms, simp_all add: month_of_index_def)
  then show ?thesis using assms by (simp add: month_index_of_index)
qed

lemma month_walk_index:
  assumes "13 \<le> i" "i \<le> 120000" "13 \<le> j" "j \<le> 120000"
  shows "month_walk p (month_of_index i) (month_of_index j) totals =
           (if i \<le> j then
              (if j = 120000 then Inl ValueError
               else Inr (fold (accrue_month p)
                           (map (\<lambda>i. strftime_Yb (month_of_index i)) [i ..< Suc j]) totals))
            else Inr totals)"
  using assms
proof (induction "Suc j - i" arbitrary: i totals)
  case 0
  then have gt: "\<not> i \<le> j" by simp
  have v: "valid_datetime (month_of_index i)" "valid_datetime (month_of_index j)"
    using 0 by (simp_all add: month_of_index_valid)
  have "\<not> date_le (month_of_index i) (month_of_index j)"
    using gt "0.prems" by (simp add: date_le_of_index)
  then show ?case using gt by (subst month_walk_unfold) simp
next
  case (Suc n)
  then have le: "i \<le> j" by simp
  have v: "valid_datetime (month_of_index i)" "valid_datetime (month_of_index j)"
    using Suc.prems by (simp_all add: month_of_index_valid)
  have d: "day (month_of_index i) = 1" by (simp add: month_of_index_def)
  have dle: "date_le (month_of_index i) (month_of_index j)"
    using le Suc.prems by (simp add: date_le_of_index)
  have idx: "month_index (month_of_index i) = i" using Suc.prems by (simp add: month_index_of_index)
  note adv = advance_month[OF v(1) d, unfolded idx]
  show ?case
  proof (cases "i = 120000")
    case True
    with le Suc.prems have "j = 120000" by simp
    then show ?thesis using True dle adv
      by (subst month_walk_unfold) simp
  next
    case False
    then have i': "13 \<le> Suc i" "Suc i \<le> 120000" using Suc.prems by simp_all
    have n: "n = Suc j - Suc i" using Suc.hyps(2) by simp
    have up: "[i ..< Suc j] = i # [Suc i ..< Suc j]" using le by (simp add: upt_conv_Cons)
    have "month_walk p (month_of_index i) (month_of_index j) totals
            = month_walk p (month_of_index (Suc i)) (month_of_index j)
                (accrue_month p (strftime_Yb (month_of_index i)) totals)"
      using False dle adv by (subst month_walk_unfold) simp
    also have "\<dots> = (if Suc i \<le> j then
              (if j = 120000 then Inl ValueError
               else Inr (fold (accrue_month p)
                           (map (\<lambda>i. strftime_Yb (month_of_index i)) [Suc i ..< Suc j])
                           (accrue_month p (strftime_Yb (month_of_index i)) totals)))
            else Inr (accrue_month p (strftime_Yb (month_of_index i)) totals))"
      by (rule Suc.hyps(1)[OF n i' Suc.prems(3,4)])
    also have "\<dots> = (if j = 120000 then Inl ValueError
               else Inr (fold (accrue_month p)
                           (map (\<lambda>i. strftime_Yb (month_of_index i)) [i ..< Suc j]) totals))"
    proof (cases "Suc i \<le> j")
      case True
      then show ?thesis by (simp only: up) simp
    next
      case False
      with le have "i = j" by simp
      then show ?thesis using \<open>i \<noteq> 120000\<close> by simp
    qed
    finally show ?thesis using le by simp
  qed
qed

lemma replace_day_Inr:
  assumes "replace_day d 1 = Inr c"
  shows "c = month_of_index (month_index d) \<and> 13 \<le> month_index d \<and> month_index d \<le> 120000"
proof -
  let ?r = "\<lparr>year = year d, month = month d, day = 1\<rparr>"
  from assms have v: "valid_datetime ?r" and c: "c = ?r"
    by (auto simp: replace_day_def mk_datetime_def Let_def split: if_splits)
  have "month_index ?r = month_index d" by (simp add: month_index_def)
  with month_of_index_index[OF v] month_index_range[OF v] c show ?thesis by simp
qed

lemma replace_day_valid:
  assumes "valid_datetime d"
  shows "replace_day d 1 = Inr (month_of_index (month_index d))"
proof -
  from assms have "valid_datetime \<lparr>year = year d, month = month d, day = 1\<rparr>"
    by (simp add: valid_datetime_def days_in_month_pos)
  then show ?thesis
    by (simp add: replace_day_def mk_datetime_def month_of_index_index[OF assms])
qed

lemma accrue_item_Inr:
  assumes "accrue_item item totals = Inr totals'"
  shows "13 \<le> month_index (listed_on item) \<and> month_index (listed_on item) \<le> 120000
         \<and> 13 \<le> month_index (acted_on item) \<and> month_index (acted_on item) \<le> 120000
         \<and> totals' = (if month_index (listed_on item) \<le> month_index (acted_on item)
                       then fold (accrue_month (price item)) (span_labels item) totals
                       else totals)"
proof -
  from assms obtain c where c: "replace_day (listed_on item) 1 = Inr c"
    by (auto simp: accrue_item_def split: sum.splits)
  from assms c obtain e where e: "replace_day (acted_on item) 1 = Inr e"
    by (auto simp: accrue_item_def split: sum.splits)
  note rc = replace_day_Inr[OF c] and re = replace_day_Inr[OF e]
  from assms c e have "month_walk (price item) (month_of_index (month_index (listed_on item)))
      (month_of_index (month_index (acted_on item))) totals = Inr totals'"
    using rc re by (simp add: accrue_item_def)
  then show ?thesis using rc re
    by (simp add: month_walk_index span_labels_def del: upt_Suc split: if_splits)
qed

lemma accrue_item_valid:
  assumes "valid_datetime (listed_on item)" "valid_datetime (acted_on item)"
  shows "accrue_item item totals =
           (if month_index (listed_on item) \<le> month_index (acted_on item) then
              (if month_index (acted_on item) = 120000 then Inl ValueError
               else Inr (fold (accrue_month (price item)) (span_labels item) totals))
            else Inr totals)"
  unfolding accrue_item_def replace_day_valid[OF assms(1)] replace_day_valid[OF assms(2)]
  using month_index_range[OF assms(1)] month_index_range[OF assms(2)]
  by (simp add: month_walk_index span_labels_def del: upt_Suc)

lemma map_of_accrue_month:
  "map_of (accrue_month p k totals)
     = (map_of totals)(k \<mapsto> (fst (bucket totals k) + p, snd (bucket totals k) + 1))"
  by (simp add: accrue_month_def update_conv')

lemma bucket_accrue_month_other:
  "k' \<noteq> k \<Longrightarrow> bucket (accrue_month p k totals) k' = bucket totals k'"
  by (simp add: bucket_def map_of_accrue_month)

lemma map_of_fold_accrue_month:
  "distinct ks \<Longrightarrow>
     map_of (fold (accrue_month p) ks totals) k =
       (if k \<in> set ks then Some (fst (bucket totals k) + p, snd (bucket totals k) + 1)
        else map_of totals k)"
proof (induction ks arbitrary: totals k)
  case Nil
  then show ?case by simp
next
  case (Cons a ks)
  then have d: "distinct ks" and a: "a \<notin> set ks" by simp_all
  show ?case
  proof (cases "k = a")
    case True
    then show ?thesis using a by (simp add: Cons.IH[OF d] map_of_accrue_month)
  next
    case False
    then show ?thesis
      by (simp add: Cons.IH[OF d] map_of_accrue_month bucket_accrue_month_other)
  qed
qed

lemma month_of_index_eta:
  "\<lparr>year = year (month_of_index i), month = month (month_of_index i), day = 1\<rparr>
     = month_of_index i"
  by (simp add: month_of_index_def)

lemma strptime_label:
  assumes "12001 \<le> i" "i \<le> 120000"
  shows "strptime_Yb (strftime_Yb (month_of_index i)) = Inr (month_of_index i)"
proof -
  have "12000 div 12 \<le> (i - 1) div 12" by (rule div_le_mono) (use assms in simp)
  then have y: "1000 \<le> year (month_of_index i)" by (simp add: month_of_index_def)
  have v: "valid_datetime (month_of_index i)"
    by (rule month_of_index_valid) (use assms in simp_all)
  show ?thesis using strptime_strftime[OF v y] unfolding month_of_index_eta .
qed

lemma strptime_label_short:
  assumes "i < 12001"
  shows "strptime_Yb (strftime_Yb (month_of_index i)) = Inl ValueError"
proof -
  have "(i - 1) div 12 \<le> 11999 div 12" by (rule div_le_mono) (use assms in simp)
  then have "year (month_of_index i) < 1000" by (simp add: month_of_index_def)
  then show ?thesis by (rule strptime_short_year) (simp_all add: month_of_index_def)
qed

lemma label_inj:
  assumes "13 \<le> i" "13 \<le> j"
    and "strftime_Yb (month_of_index i) = strftime_Yb (month_of_index j)"
  shows "i = j"
proof -
  have "year (month_of_index i) = year (month_of_index j)
        \<and> month (month_of_index i) = month (month_of_index j)"
    by (rule strftime_inj[OF _ _ _ _ assms(3)]) (simp_all add: month_of_index_def)
  then have "month_index (month_of_index i) = month_index (month_of_index j)"
    unfolding month_index_def by (simp only:)
  then show ?thesis
    unfolding month_index_of_index[OF assms(1)] month_index_of_index[OF assms(2)] .
qed

lemma distinct_labels:
  assumes "13 \<le> i" "j \<le> 120000"
  shows "distinct (map (\<lambda>i. strftime_Yb (month_of_index i)) [i ..< Suc j])"
proof -
  have "inj_on (\<lambda>i. strftime_Yb (month_of_index i)) (set [i ..< Suc j])"
  proof (rule inj_onI)
    fix a b
    assume "a \<in> set [i ..< Suc j]" "b \<in> set [i ..< Suc j]"
      and eq: "strftime_Yb (month_of_index a) = strftime_Yb (month_of_index b)"
    then have "13 \<le> a" "13 \<le> b"
      using assms by (auto simp del: upt_Suc)
    then show "a = b" using eq by (rule label_inj)
  qed
  then show ?thesis by (simp add: distinct_map del: upt_Suc)
qed

subsection \<open>The effect of one record\<close>

lemma length_span_labels:
  "1 \<le> month_span item \<Longrightarrow> length (span_labels item) = nat (month_span item)"
  by (simp add: span_labels_def month_span_def del: upt_Suc)

lemma accrue_item_effect:
  fixes item :: "('p::{zero,plus}) MarketItem"
  assumes "1 \<le> month_span item"
    and "accrue_item item totals = Inr totals'"
  shows "length (span_labels item) = nat (month_span item)
         \<and> distinct (span_labels item)
         \<and> (\<forall>k \<in> set (span_labels item).
               map_of totals' k = Some (fst (bucket totals k) + price item, snd (bucket totals k) + 1))
         \<and> (\<forall>k. k \<notin> set (span_labels item) \<longrightarrow> map_of totals' k = map_of totals k)"
proof -
  from assms(1) have le: "month_index (listed_on item) \<le> month_index (acted_on item)"
    by (simp add: month_span_def)
  note r = accrue_item_Inr[OF assms(2)]
  from r le have t: "totals' = fold (accrue_month (price item)) (span_labels item) totals"
    by simp
  have d: "distinct (span_labels item)"
    unfolding span_labels_def using r by (intro distinct_labels) simp_all
  show ?thesis
    using length_span_labels[OF assms(1)] d
    by (simp add: t map_of_fold_accrue_month[OF d])
qed

lemma replace_day_label:
  assumes "replace_day d 1 = Inr c"
  shows "strftime_Yb (month_of_index (month_index d)) = strftime_Yb d"
proof -
  from assms have "c = \<lparr>year = year d, month = month d, day = 1\<rparr>"
    by (auto simp: replace_day_def mk_datetime_def Let_def split: if_splits)
  then have "strftime_Yb c = strftime_Yb d" by (simp add: strftime_Yb_def)
  with replace_day_Inr[OF assms] show ?thesis by simp
qed

lemma accrue_item_labels:
  assumes "accrue_item item totals = Inr totals'"
  shows "strftime_Yb (month_of_index (month_index (listed_on item))) = strftime_Yb (listed_on item)
         \<and> strftime_Yb (month_of_index (month_index (acted_on item))) = strftime_Yb (acted_on item)"
proof -
  from assms obtain c where c: "replace_day (listed_on item) 1 = Inr c"
    by (auto simp: accrue_item_def split: sum.splits)
  from assms c obtain e where e: "replace_day (acted_on item) 1 = Inr e"
    by (auto simp: accrue_item_def split: sum.splits)
  from replace_day_label[OF c] replace_day_label[OF e] show ?thesis by simp
qed

lemma span_labels_ends:
  assumes "1 \<le> month_span item" "accrue_item item totals = Inr totals'"
  shows "hd (span_labels item) = strftime_Yb (listed_on item)
         \<and> last (span_labels item) = strftime_Yb (acted_on item)"
proof -
  from assms(1) have le: "month_index (listed_on item) \<le> month_index (acted_on item)"
    by (simp add: month_span_def)
  then have ne: "[month_index (listed_on item) ..< Suc (month_index (acted_on item))] \<noteq> []"
    by simp
  have "hd (span_labels item) = strftime_Yb (month_of_index (month_index (listed_on item)))"
    unfolding span_labels_def hd_map[OF ne] using le by (simp del: upt_Suc)
  moreover have "last (span_labels item) = strftime_Yb (month_of_index (month_index (acted_on item)))"
    unfolding span_labels_def last_map[OF ne] using le by simp
  ultimately show ?thesis using accrue_item_labels[OF assms(2)] by simp
qed

lemma key_jan_mar_valid:
  "valid_datetime (listed_on key_jan_mar) \<and> valid_datetime (acted_on key_jan_mar)
   \<and> month_span key_jan_mar = 3"
  by (simp add: key_jan_mar_def market_item_def date_def valid_datetime_def MINYEAR_def
      MAXYEAR_def days_in_month_def month_span_def month_index_def)

lemma key_jan_mar_labels:
  "span_labels key_jan_mar = [''2024-Jan'', ''2024-Feb'', ''2024-Mar'']"
  by (simp add: span_labels_def key_jan_mar_def market_item_def date_def month_index_def
      upt_conv_Cons month_of_index_def strftime_Yb_def decimal_examples month_abbr_def
      del: upt_Suc)

subsection \<open>Keys of the monthly totals\<close>

lemma keys_accrue_month:
  "fst ` set (accrue_month p k totals) = insert k (fst ` set totals)"
proof -
  have "fst ` set (AList.update k v al) = insert k (fst ` set al)" for v :: "'a \<times> nat" and al
    by (induction al) auto
  then show ?thesis by (simp add: accrue_month_def)
qed

lemma distinct_accrue_month:
  "distinct (map fst totals) \<Longrightarrow> distinct (map fst (accrue_month p k totals))"
  by (simp add: accrue_month_def distinct_update)

lemma keys_fold_accrue_month:
  "fst ` set (fold (accrue_month p) ks totals) = set ks \<union> fst ` set totals"
  by (induction ks arbitrary: totals) (auto simp: keys_accrue_month)

lemma distinct_fold_accrue_month:
  "distinct (map fst totals) \<Longrightarrow> distinct (map fst (fold (accrue_month p) ks totals))"
  by (induction ks arbitrary: totals) (simp_all add: distinct_accrue_month)

lemma span_labels_range:
  assumes "13 \<le> month_index (listed_on item)" "month_index (acted_on item) \<le> 120000"
  shows "set (span_labels item) \<subseteq> (\<lambda>i. strftime_Yb (month_of_index i)) ` {13 .. 120000}"
  using assms by (auto simp: span_labels_def simp del: upt_Suc)

lemma accrue_item_keys:
  assumes "accrue_item item totals = Inr totals'"
    and "distinct (map fst totals)"
    and "fst ` set totals \<subseteq> (\<lambda>i. strftime_Yb (month_of_index i)) ` {13 .. 120000}"
  shows "distinct (map fst totals')
         \<and> fst ` set totals' \<subseteq> (\<lambda>i. strftime_Yb (month_of_index i)) ` {13 .. 120000}"
proof -
  note r = accrue_item_Inr[OF assms(1)]
  have s: "set (span_labels item) \<subseteq> (\<lambda>i. strftime_Yb (month_of_index i)) ` {13 .. 120000}"
    using r by (intro span_labels_range) simp_all
  show ?thesis
  proof (cases "month_index (listed_on item) \<le> month_index (acted_on item)")
    case True
    with r have "totals' = fold (accrue_month (price item)) (span_labels item) totals" by simp
    then show ?thesis using assms(2,3) s
      by (simp add: distinct_fold_accrue_month keys_fold_accrue_month)
  next
    case False
    with r have "totals' = totals" by simp
    then show ?thesis using assms(2,3) by simp
  qed
qed

lemma accrue_items_keys:
  assumes "accrue_items items totals = Inr totals'"
    and "distinct (map fst totals)"
    and "fst ` set totals \<subseteq> (\<lambda>i. strftime_Yb (month_of_index i)) ` {13 .. 120000}"
  shows "distinct (map fst totals')
         \<and> fst ` set totals' \<subseteq> (\<lambda>i. strftime_Yb (month_of_index i)) ` {13 .. 120000}"
  using assms
proof (induction items arbitrary: totals)
  case Nil
  then show ?case by simp
next
  case (Cons item items)
  from Cons.prems(1) obtain t where t: "accrue_item item totals = Inr t"
    and rest: "accrue_items items t = Inr totals'"
    by (auto split: sum.splits)
  from accrue_item_keys[OF t Cons.prems(2,3)] Cons.IH[OF rest] show ?case by simp
qed

lemma accrue_items_append:
  "accrue_items (xs @ ys) totals =
     (case accrue_items xs totals of Inl e \<Rightarrow> Inl e | Inr t \<Rightarrow> accrue_items ys t)"
  by (induction xs arbitrary: totals) (simp_all split: sum.splits)


lemma sorted_by_month_Inr:
  assumes "sorted_by_month totals = Inr sorted_totals"
  shows "sorted_totals = sorted_py (\<lambda>x. date_key (projr (strptime_Yb (fst x)))) False totals
         \<and> (\<forall>x \<in> set totals. \<not> isl (strptime_Yb (fst x)))"
  using assms by (auto simp: sorted_by_month_def list_all_iff split: if_splits)

lemma sorted_by_month_parsed:
  assumes "\<forall>x \<in> set totals. \<not> isl (strptime_Yb (fst x))"
  shows "sorted_by_month totals
           = Inr (sorted_py (\<lambda>x. date_key (projr (strptime_Yb (fst x)))) False totals)"
  using assms by (simp add: sorted_by_month_def list_all_iff)

lemma by_month_result:
  assumes "get_total_price_by_month items = Inr result"
  shows "\<exists>totals. accrue_items items [] = Inr totals
           \<and> result = sorted_py (\<lambda>x. date_key (projr (strptime_Yb (fst x)))) False totals
           \<and> distinct (map fst totals)
           \<and> fst ` set totals \<subseteq> (\<lambda>i. strftime_Yb (month_of_index i)) ` {13 .. 120000}
           \<and> (\<forall>x \<in> set totals. \<not> isl (strptime_Yb (fst x)))"
proof -
  from assms obtain totals where t: "accrue_items items [] = Inr totals"
    by (auto simp: get_total_price_by_month_def split: sum.splits)
  from assms t obtain sorted_totals where s: "sorted_by_month totals = Inr sorted_totals"
    and r: "result = dict_of sorted_totals"
    by (auto simp: get_total_price_by_month_def split: sum.splits)
  have k: "distinct (map fst totals)"
    "fst ` set totals \<subseteq> (\<lambda>i. strftime_Yb (month_of_index i)) ` {13 .. 120000}"
    using accrue_items_keys[OF t] by simp_all
  note p = sorted_by_month_Inr[OF s]
  have "result = sorted_py (\<lambda>x. date_key (projr (strptime_Yb (fst x)))) False totals"
    unfolding r using p by (simp add: dict_of_distinct distinct_keys_sorted_py k(1))
  with t k p show ?thesis by blast
qed

lemma by_month_returns:
  assumes "accrue_items items [] = Inr totals"
    and "\<forall>x \<in> set totals. \<not> isl (strptime_Yb (fst x))"
  shows "get_total_price_by_month items
           = Inr (sorted_py (\<lambda>x. date_key (projr (strptime_Yb (fst x)))) False totals)"
proof -
  have k: "distinct (map fst totals)"
    using accrue_items_keys[OF assms(1)] by simp
  show ?thesis
    by (simp add: get_total_price_by_month_def assms(1) sorted_by_month_parsed[OF assms(2)]
        dict_of_distinct distinct_keys_sorted_py k)
qed

lemma date_key_inj: "date_key a = date_key b \<Longrightarrow> a = b"
  by (cases a, cases b) (simp add: date_key_def)

subsection \<open>The result of the monthly summary\<close>

lemma key_is_label:
  assumes "fst ` set totals \<subseteq> (\<lambda>i. strftime_Yb (month_of_index i)) ` {13 .. 120000}"
    and "x \<in> set totals"
  shows "\<exists>m. 13 \<le> m \<and> m \<le> 120000 \<and> fst x = strftime_Yb (month_of_index m)"
proof -
  from assms(2) have "fst x \<in> fst ` set totals" by (rule imageI)
  with assms(1) have "fst x \<in> (\<lambda>i. strftime_Yb (month_of_index i)) ` {13 .. 120000}"
    by (rule subsetD)
  then show ?thesis by (auto simp: image_iff)
qed

lemma by_month_adjacent:
  assumes "get_total_price_by_month items = Inr result" "Suc i < length result"
  shows "\<exists>a b. strptime_Yb (fst (result ! i)) = Inr a
               \<and> strptime_Yb (fst (result ! Suc i)) = Inr b
               \<and> date_key a < date_key b"
proof -
  let ?key = "\<lambda>x. date_key (projr (strptime_Yb (fst x)))"
  let ?L = "(\<lambda>i. strftime_Yb (month_of_index i)) ` {13 .. 120000}"
  from by_month_result[OF assms(1)] obtain totals where
    r: "result = sorted_py ?key False totals" and d: "distinct (map fst totals)"
    and k: "fst ` set totals \<subseteq> ?L"
    and p: "\<forall>x \<in> set totals. \<not> isl (strptime_Yb (fst x))"
    by blast
  have dr: "distinct (map fst result)" unfolding r using d by (rule distinct_keys_sorted_py)
  have kr: "fst ` set result \<subseteq> ?L" unfolding r using k by (simp add: set_sorted_py)
  have pr: "\<forall>x \<in> set result. \<not> isl (strptime_Yb (fst x))"
    unfolding r using p by (simp add: set_sorted_py)
  have sr: "sorted_wrt (\<lambda>x y. ?key x \<le> ?key y) result" unfolding r by (rule sorted_py_ascending)
  have i: "i < length result" using assms(2) by simp
  from key_is_label[OF kr nth_mem[OF i]] obtain m where m: "13 \<le> m" "m \<le> 120000"
    "fst (result ! i) = strftime_Yb (month_of_index m)"
    by blast
  from key_is_label[OF kr nth_mem[OF assms(2)]] obtain n where n: "13 \<le> n" "n \<le> 120000"
    "fst (result ! Suc i) = strftime_Yb (month_of_index n)"
    by blast
  have "\<not> isl (strptime_Yb (strftime_Yb (month_of_index m)))"
    using pr nth_mem[OF i] unfolding m(3)[symmetric] by blast
  then have m': "12001 \<le> m" using strptime_label_short[of m] by (cases "m < 12001") simp_all
  have "\<not> isl (strptime_Yb (strftime_Yb (month_of_index n)))"
    using pr nth_mem[OF assms(2)] unfolding n(3)[symmetric] by blast
  then have n': "12001 \<le> n" using strptime_label_short[of n] by (cases "n < 12001") simp_all
  have pm: "strptime_Yb (fst (result ! i)) = Inr (month_of_index m)"
    unfolding m(3) using m' m(2) by (rule strptime_label)
  have pn: "strptime_Yb (fst (result ! Suc i)) = Inr (month_of_index n)"
    unfolding n(3) using n' n(2) by (rule strptime_label)
  have "?key (result ! i) \<le> ?key (result ! Suc i)"
    using sorted_wrt_nth_less[OF sr _ assms(2), of i] by simp
  then have le: "date_key (month_of_index m) \<le> date_key (month_of_index n)"
    unfolding pm pn by simp
  have "fst (result ! i) \<noteq> fst (result ! Suc i)"
    using dr i assms(2) by (simp add: distinct_conv_nth)
  then have "month_of_index m \<noteq> month_of_index n" unfolding m(3) n(3) by auto
  then have "date_key (month_of_index m) \<noteq> date_key (month_of_index n)"
    using date_key_inj by blast
  with le have "date_key (month_of_index m) < date_key (month_of_index n)" by simp
  with pm pn show ?thesis by blast
qed


lemma parse_examples:
  "strptime_Yb ''2024-Jan'' = Inr (date 2024 1 1)"
  "strptime_Yb ''2024-Feb'' = Inr (date 2024 2 1)"
  "strptime_Yb ''2024-Mar'' = Inr (date 2024 3 1)"
  by (simp_all add: strptime_Yb_def is_digit_def digit_val_def month_abbr_table mk_datetime_def
      valid_datetime_def MINYEAR_def MAXYEAR_def days_in_month_def date_def is_leap_def)

lemma out_of_order_accrued:
  "accrue_items out_of_order_items [] = Inr [(''2024-Feb'', 7, 1), (''2024-Jan'', 5, 1)]"
proof -
  let ?b = "market_item ''Bow'' (7::int) (date 2024 2 5) (date 2024 2 20)"
  let ?a = "market_item ''Axe'' (5::int) (date 2024 1 10) (date 2024 1 12)"
  have vb: "valid_datetime (listed_on ?b)" "valid_datetime (acted_on ?b)"
    and va: "valid_datetime (listed_on ?a)" "valid_datetime (acted_on ?a)"
    by (simp_all add: market_item_def date_def valid_datetime_def MINYEAR_def MAXYEAR_def
        days_in_month_def is_leap_def)
  have ib: "month_index (listed_on ?b) = 24290" "month_index (acted_on ?b) = 24290"
    and ia: "month_index (listed_on ?a) = 24289" "month_index (acted_on ?a) = 24289"
    by (simp_all add: market_item_def date_def month_index_def)
  have lb: "span_labels ?b = [''2024-Feb'']" and la: "span_labels ?a = [''2024-Jan'']"
    by (simp_all add: span_labels_def market_item_def date_def month_index_def upt_conv_Cons
        month_of_index_def strftime_Yb_def decimal_examples month_abbr_def del: upt_Suc)
  have pb: "price ?b = 7" and pa: "price ?a = 5" by (simp_all add: market_item_def)
  show ?thesis
    unfolding out_of_order_items_def accrue_items.simps accrue_item_valid[OF vb]
      accrue_item_valid[OF va] ia ib la lb pa pb
    by (simp add: accrue_month_def bucket_def)
qed

lemma out_of_order_by_month:
  "get_total_price_by_month out_of_order_items
     = Inr [(''2024-Jan'', 5, 1), (''2024-Feb'', 7, 1)]"
proof -
  have "\<forall>x \<in> set [(''2024-Feb'', 7 :: int, 1 :: nat), (''2024-Jan'', 5, 1)].
          \<not> isl (strptime_Yb (fst x))"
    by (simp add: parse_examples)
  from by_month_returns[OF out_of_order_accrued this] show ?thesis
    by (simp add: sorted_py_def parse_examples date_key_def date_def)
qed

subsection \<open>Chronological order of the monthly summary\<close>

text \<open>
  Claim C5. The entries returned by \<^verbatim>\<open>get_total_price_by_month\<close> are in chronological
  order of the month obtained by parsing their labels: for every adjacent pair the parsed
  month of the first is strictly before the parsed month of the second. The order is
  that of the parsed keys alone, whatever the order of insertion and the bucket values.
\<close>

theorem by_month_chronological:
  assumes "get_total_price_by_month items = Inr result"
  shows "\<forall>i. Suc i < length result \<longrightarrow>
           (\<exists>a b. strptime_Yb (fst (result ! i)) = Inr a
                  \<and> strptime_Yb (fst (result ! Suc i)) = Inr b
                  \<and> date_key a < date_key b)"
  using by_month_adjacent[OF assms] by blast

theorem by_month_chronological_witness:
  "get_total_price_by_month out_of_order_items
     = Inr [(''2024-Jan'', 5, 1), (''2024-Feb'', 7, 1)]
   \<and> Suc 0 < length [(''2024-Jan'', 5 :: int, 1 :: nat), (''2024-Feb'', 7, 1)]
   \<and> (\<exists>a b. strptime_Yb ''2024-Jan'' = Inr a \<and> strptime_Yb ''2024-Feb'' = Inr b
             \<and> date_key a < date_key b)"
  using by_month_chronological[OF out_of_order_by_month, rule_format, of 0] out_of_order_by_month
  by simp

subsection \<open>Accrual of one record within a run\<close>

lemma key_jan_mar_accrue_empty:
  "accrue_item key_jan_mar []
     = Inr [(''2024-Jan'', 10, 1), (''2024-Feb'', 10, 1), (''2024-Mar'', 10, 1)]"
proof -
  have v: "valid_datetime (listed_on key_jan_mar)" "valid_datetime (acted_on key_jan_mar)"
    using key_jan_mar_valid by simp_all
  have i: "month_index (listed_on key_jan_mar) = 24289" "month_index (acted_on key_jan_mar) = 24291"
    by (simp_all add: key_jan_mar_def market_item_def date_def month_index_def)
  have p: "price key_jan_mar = 10" by (simp add: key_jan_mar_def market_item_def)
  show ?thesis
    unfolding accrue_item_valid[OF v] i key_jan_mar_labels p
    by (simp add: accrue_month_def bucket_def)
qed

lemma key_jan_mar_by_month:
  "get_total_price_by_month ([] @ key_jan_mar # [])
     = Inr [(''2024-Jan'', 10, 1), (''2024-Feb'', 10, 1), (''2024-Mar'', 10, 1)]"
proof -
  have "accrue_items ([] @ key_jan_mar # []) []
          = Inr [(''2024-Jan'', 10, 1), (''2024-Feb'', 10, 1), (''2024-Mar'', 10, 1)]"
    by (simp add: key_jan_mar_accrue_empty)
  from by_month_returns[OF this] show ?thesis
    by (simp add: sorted_py_def parse_examples date_key_def date_def)
qed

text \<open>
  Claim C1. Take any record \<open>item\<close> of the input sequence (the records before it are
  \<open>earlier\<close>, those after it \<open>later\<close>) and let \<open>k = month_span item\<close>, the month index
  of \<^verbatim>\<open>acted_on\<close> minus the month index of \<^verbatim>\<open>listed_on\<close> plus one. If \<open>k \<ge> 1\<close>,
  then in a run of \<^verbatim>\<open>get_total_price_by_month\<close> that returns a mapping, the record's
  pass through the loop takes the totals accumulated so far to totals in which each of
  the \<open>k\<close> distinct month buckets from the month of \<^verbatim>\<open>listed_on\<close> through the month
  of \<^verbatim>\<open>acted_on\<close> (\<open>span_labels item\<close>: consecutive months, the first labelled as
  \<^verbatim>\<open>listed_on\<close>, the last as \<^verbatim>\<open>acted_on\<close>) holds its former total plus the full
  price and its former count plus 1 (a missing bucket counting as \<open>(0, 0)\<close>), and every
  other bucket is unchanged. The returned mapping is the mapping accumulated after the
  last record.
\<close>

theorem accrual_per_record:
  fixes item :: "('p::{zero,plus}) MarketItem"
  assumes "get_total_price_by_month (earlier @ item # later) = Inr result"
    and "1 \<le> month_span item"
  shows "\<exists>totals totals' final.
           accrue_items earlier [] = Inr totals
         \<and> accrue_item item totals = Inr totals'
         \<and> accrue_items later totals' = Inr final
         \<and> map_of result = map_of final
         \<and> length (span_labels item) = nat (month_span item)
         \<and> distinct (span_labels item)
         \<and> hd (span_labels item) = strftime_Yb (listed_on item)
         \<and> last (span_labels item) = strftime_Yb (acted_on item)
         \<and> (\<forall>k \<in> set (span_labels item).
               map_of totals' k
                 = Some (fst (bucket totals k) + price item, snd (bucket totals k) + 1))
         \<and> (\<forall>k. k \<notin> set (span_labels item) \<longrightarrow> map_of totals' k = map_of totals k)"
proof -
  from by_month_result[OF assms(1)] obtain final where
    f: "accrue_items (earlier @ item # later) [] = Inr final"
    and r: "result = sorted_py (\<lambda>x. date_key (projr (strptime_Yb (fst x)))) False final"
    and d: "distinct (map fst final)"
    by blast
  from f obtain totals where t: "accrue_items earlier [] = Inr totals"
    and f': "accrue_items (item # later) totals = Inr final"
    by (auto simp: accrue_items_append split: sum.splits)
  from f' obtain totals' where t': "accrue_item item totals = Inr totals'"
    and l: "accrue_items later totals' = Inr final"
    by (auto split: sum.splits)
  have m: "map_of result = map_of final" unfolding r using d by (rule map_of_sorted_py)
  from accrue_item_effect[OF assms(2) t'] span_labels_ends[OF assms(2) t'] t t' l m
  show ?thesis by blast
qed

theorem accrual_per_record_witness:
  "get_total_price_by_month ([] @ key_jan_mar # [])
     = Inr [(''2024-Jan'', 10, 1), (''2024-Feb'', 10, 1), (''2024-Mar'', 10, 1)]
   \<and> month_span key_jan_mar = 3
   \<and> span_labels key_jan_mar = [''2024-Jan'', ''2024-Feb'', ''2024-Mar'']
   \<and> (\<exists>totals'. accrue_item key_jan_mar [] = Inr totals'
          \<and> map_of totals' ''2024-Feb'' = Some (10, 1))"
proof -
  have sp: "1 \<le> month_span key_jan_mar" using key_jan_mar_valid by simp
  from accrual_per_record[OF key_jan_mar_by_month sp]
  obtain totals totals' where a: "accrue_items [] [] = Inr totals"
    and b: "accrue_item key_jan_mar totals = Inr totals'"
    and e: "\<forall>k \<in> set (span_labels key_jan_mar).
              map_of totals' k
                = Some (fst (bucket totals k) + price key_jan_mar, snd (bucket totals k) + 1)"
    by blast
  from a have t: "totals = []" by simp
  have "''2024-Feb'' \<in> set (span_labels key_jan_mar)" by (simp add: key_jan_mar_labels)
  with e have "map_of totals' ''2024-Feb''
                 = Some (fst (bucket totals ''2024-Feb'') + price key_jan_mar,
                         snd (bucket totals ''2024-Feb'') + 1)"
    by (rule bspec)
  then have "map_of totals' ''2024-Feb'' = Some (10, 1)"
    by (simp add: t bucket_def key_jan_mar_def market_item_def)
  with b t have "\<exists>totals'. accrue_item key_jan_mar [] = Inr totals'
          \<and> map_of totals' ''2024-Feb'' = Some (10, 1)"
    by blast
  then show ?thesis
    using key_jan_mar_by_month key_jan_mar_valid key_jan_mar_labels by simp
qed

subsection \<open>Records whose dates are reversed\<close>

lemma same_month_reversed_facts:
  "valid_datetime (listed_on same_month_reversed)"
  "valid_datetime (acted_on same_month_reversed)"
  "month_index (listed_on same_month_reversed) = 24291"
  "month_index (acted_on same_month_reversed) = 24291"
  "price same_month_reversed = 10"
  "date_key (acted_on same_month_reversed) < date_key (listed_on same_month_reversed)"
  by (simp_all add: same_month_reversed_def market_item_def date_def valid_datetime_def
      MINYEAR_def MAXYEAR_def days_in_month_def month_index_def date_key_def)

lemma same_month_reversed_labels: "span_labels same_month_reversed = [''2024-Mar'']"
  by (simp add: span_labels_def same_month_reversed_facts
      upt_conv_Cons month_of_index_def strftime_Yb_def decimal_examples month_abbr_def
      del: upt_Suc)

lemma same_month_reversed_accrue:
  "accrue_item same_month_reversed [] = Inr [(''2024-Mar'', 10, 1)]"
  unfolding accrue_item_valid[OF same_month_reversed_facts(1,2)]
    same_month_reversed_facts(3,4,5) same_month_reversed_labels
  by (simp add: accrue_month_def bucket_def)

lemma same_month_reversed_by_month:
  "get_total_price_by_month [same_month_reversed] = Inr [(''2024-Mar'', 10, 1)]"
proof -
  have "accrue_items [same_month_reversed] [] = Inr [(''2024-Mar'', 10, 1)]"
    by (simp add: same_month_reversed_accrue)
  from by_month_returns[OF this] show ?thesis by (simp add: sorted_py_def parse_examples)
qed

text \<open>
  Claim C2, as stated, fails: a record whose \<^verbatim>\<open>acted_on\<close> date is strictly before its
  \<^verbatim>\<open>listed_on\<close> date but lies in the same month still runs the loop once, because
  both cursors are moved to the first day of their month before they are compared.
  Listed on 15 March 2024 and acted on 10 March 2024, the record adds its price to the
  bucket of March 2024.
\<close>

theorem reversed_dates_same_month_counterexample:
  "date_key (acted_on same_month_reversed) < date_key (listed_on same_month_reversed)
   \<and> accrue_item same_month_reversed [] = Inr [(''2024-Mar'', 10, 1)]
   \<and> get_total_price_by_month [same_month_reversed] = Inr [(''2024-Mar'', 10, 1)]"
  by (simp add: same_month_reversed_facts(6) same_month_reversed_accrue
      same_month_reversed_by_month)

lemma key_reversed_facts:
  "valid_datetime (listed_on key_reversed)"
  "valid_datetime (acted_on key_reversed)"
  "month_index (acted_on key_reversed) < month_index (listed_on key_reversed)"
  by (simp_all add: key_reversed_def market_item_def date_def valid_datetime_def
      MINYEAR_def MAXYEAR_def days_in_month_def month_index_def is_leap_def)

lemma accrue_items_skip:
  assumes "\<And>totals. accrue_item item totals = Inr totals"
  shows "accrue_items (earlier @ item # later) totals = accrue_items (earlier @ later) totals"
  by (simp add: accrue_items_append assms split: sum.splits)

text \<open>
  Claim C2, amended. For every record whose \<^verbatim>\<open>acted_on\<close> month is strictly before its
  \<^verbatim>\<open>listed_on\<close> month, the loop of \<^verbatim>\<open>get_total_price_by_month\<close> runs zero times
  for that record: its pass returns the totals unchanged, so no bucket's total and no
  bucket's count changes, and the function returns what it returns without the record.
\<close>

theorem no_accrual_when_month_reversed:
  fixes item :: "('p::{zero,plus}) MarketItem"
  assumes "valid_datetime (listed_on item)" "valid_datetime (acted_on item)"
    and "month_index (acted_on item) < month_index (listed_on item)"
  shows "accrue_item item totals = Inr totals
         \<and> get_total_price_by_month (earlier @ item # later)
             = get_total_price_by_month (earlier @ later)"
proof -
  have z: "accrue_item item t = Inr t" for t :: "'p totals"
    using assms(3) by (simp add: accrue_item_valid[OF assms(1,2)])
  show ?thesis
    by (simp add: z get_total_price_by_month_def accrue_items_skip[of item, OF z])
qed

theorem no_accrual_when_month_reversed_witness:
  "valid_datetime (listed_on key_reversed) \<and> valid_datetime (acted_on key_reversed)
   \<and> month_index (acted_on key_reversed) < month_index (listed_on key_reversed)
   \<and> accrue_item key_reversed [(''2024-Feb'', 4, 2)] = Inr [(''2024-Feb'', 4, 2)]
   \<and> get_total_price_by_month ([] @ key_reversed # []) = Inr []"
  using no_accrual_when_month_reversed[OF key_reversed_facts, of "[(''2024-Feb'', 4, 2)]" "[]" "[]"]
    key_reversed_facts
  by (simp add: get_total_price_by_month_def sorted_by_month_def sorted_py_def dict_of_def)

subsection \<open>Month labels of years below 1000\<close>

text \<open>
  The loop writes the label of a month with \<^verbatim>\<open>strftime("%Y-%b")\<close> and the final sort
  reads every label back with \<^verbatim>\<open>strptime(x[0], "%Y-%b")\<close>. For a date of the year 1000
  or later the label has four digits and is read back as the first day of the same
  month (lemma \<open>strptime_strftime\<close>); for an earlier year the label has fewer digits
  and is refused (lemma \<open>strptime_short_year\<close>).
\<close>

lemma key_year_999_facts:
  "valid_datetime (listed_on key_year_999)"
  "valid_datetime (acted_on key_year_999)"
  "month_index (listed_on key_year_999) = 11993"
  "month_index (acted_on key_year_999) = 11993"
  "price key_year_999 = 10"
  by (simp_all add: key_year_999_def market_item_def date_def valid_datetime_def
      MINYEAR_def MAXYEAR_def days_in_month_def month_index_def)

lemma key_year_999_label: "strftime_Yb (listed_on key_year_999) = ''999-May''"
  by (simp add: key_year_999_def market_item_def date_def strftime_Yb_def decimal_examples
      month_abbr_def)

lemma key_year_999_labels: "span_labels key_year_999 = [''999-May'']"
  by (simp add: span_labels_def key_year_999_facts
      upt_conv_Cons month_of_index_def strftime_Yb_def decimal_examples month_abbr_def
      del: upt_Suc)

lemma key_year_999_accrue:
  "accrue_items [key_year_999] [] = Inr [(''999-May'', 10, 1)]"
  unfolding accrue_items.simps accrue_item_valid[OF key_year_999_facts(1,2)]
    key_year_999_facts(3,4,5) key_year_999_labels
  by (simp add: accrue_month_def bucket_def)

lemma parse_999_May: "strptime_Yb ''999-May'' = Inl ValueError"
  by (simp add: strptime_Yb_def hyphen_not_digit)

text \<open>
  Claim C8 fails for the years below 1000. A valid record listed and acted on 1 May 999
  (the loader reads \<^verbatim>\<open>01 May 0999\<close>) makes the loop of \<^verbatim>\<open>get_total_price_by_month\<close>
  write the label \<^verbatim>\<open>999-May\<close> for the pair (999, 5). Parsing that label with the same
  format does not give the pair back: \<^verbatim>\<open>strptime\<close> wants four digits for \<^verbatim>\<open>%Y\<close> and
  raises \<^verbatim>\<open>ValueError\<close>, and so does \<^verbatim>\<open>get_total_price_by_month\<close>, in its final
  sort.
\<close>

theorem by_month_label_of_year_999_not_parsed:
  "valid_datetime (listed_on key_year_999) \<and> valid_datetime (acted_on key_year_999)
   \<and> year (listed_on key_year_999) = 999 \<and> month (listed_on key_year_999) = 5
   \<and> strftime_Yb (listed_on key_year_999) = ''999-May''
   \<and> accrue_items [key_year_999] [] = Inr [(''999-May'', 10, 1)]
   \<and> strptime_Yb ''999-May'' = Inl ValueError
   \<and> get_total_price_by_month [key_year_999] = Inl ValueError"
proof -
  have "year (listed_on key_year_999) = 999 \<and> month (listed_on key_year_999) = 5"
    by (simp add: key_year_999_def market_item_def date_def)
  moreover have "get_total_price_by_month [key_year_999] = Inl ValueError"
    unfolding get_total_price_by_month_def key_year_999_accrue
    by (simp add: sorted_by_month_def parse_999_May)
  moreover note key_year_999_facts(1,2) key_year_999_label key_year_999_accrue parse_999_May
  ultimately show ?thesis by (intro conjI) (erule conjunct1 conjunct2 | assumption)+
qed

subsection \<open>Termination and the last representable month\<close>

text \<open>
  The three functions are total: \<open>get_total_price\<close> and \<open>get_total_price_by_name\<close>
  are structural recursions over the list, and the termination of \<open>month_walk\<close> is
  proved with its definition. A run of \<^verbatim>\<open>get_total_price_by_month\<close> returns a mapping
  whenever no record's walk starts before the year 1000 or reaches December 9999.
\<close>

lemma accrue_items_returns:
  fixes items :: "('p::{zero,plus}) MarketItem list"
  assumes "\<forall>item \<in> set items. valid_datetime (listed_on item) \<and> valid_datetime (acted_on item)
             \<and> (month_index (listed_on item) \<le> month_index (acted_on item)
                  \<longrightarrow> month_index (acted_on item) \<noteq> 120000)"
  shows "\<exists>totals'. accrue_items items totals = Inr totals'"
  using assms
proof (induction items arbitrary: totals)
  case Nil
  then show ?case by simp
next
  case (Cons item items)
  then have v: "valid_datetime (listed_on item)" "valid_datetime (acted_on item)"
    and m: "month_index (listed_on item) \<le> month_index (acted_on item)
              \<longrightarrow> month_index (acted_on item) \<noteq> 120000"
    by simp_all
  have "\<exists>t. accrue_item item totals = Inr t"
  proof (cases "month_index (listed_on item) \<le> month_index (acted_on item)")
    case True
    with m show ?thesis by (simp add: accrue_item_valid[OF v])
  next
    case False
    then show ?thesis by (simp add: accrue_item_valid[OF v])
  qed
  then obtain t where t: "accrue_item item totals = Inr t" by blast
  from Cons.IH[of t] Cons.prems obtain t' where "accrue_items items t = Inr t'" by auto
  with t show ?case by simp
qed

lemma accrue_item_parsed:
  assumes "accrue_item item totals = Inr totals'"
    and "\<forall>x \<in> set totals. \<not> isl (strptime_Yb (fst x))"
    and "month_index (listed_on item) \<le> month_index (acted_on item)
           \<longrightarrow> 12001 \<le> month_index (listed_on item)"
  shows "\<forall>x \<in> set totals'. \<not> isl (strptime_Yb (fst x))"
proof (cases "month_index (listed_on item) \<le> month_index (acted_on item)")
  case False
  with accrue_item_Inr[OF assms(1)] have "totals' = totals" by simp
  with assms(2) show ?thesis by simp
next
  case True
  note r = accrue_item_Inr[OF assms(1)]
  from r True have t: "totals' = fold (accrue_month (price item)) (span_labels item) totals"
    by simp
  from assms(3) True have lo: "12001 \<le> month_index (listed_on item)" by simp
  have new: "\<not> isl (strptime_Yb k)" if "k \<in> set (span_labels item)" for k
  proof -
    from that obtain i where i: "month_index (listed_on item) \<le> i"
      "i \<le> month_index (acted_on item)" and k: "k = strftime_Yb (month_of_index i)"
      by (auto simp: span_labels_def simp del: upt_Suc)
    have "12001 \<le> i" "i \<le> 120000" using i lo r by simp_all
    then show ?thesis unfolding k by (simp add: strptime_label)
  qed
  show ?thesis
  proof
    fix x assume "x \<in> set totals'"
    then have "fst x \<in> fst ` set totals'" by (rule imageI)
    then have "fst x \<in> set (span_labels item) \<union> fst ` set totals"
      unfolding t keys_fold_accrue_month .
    then show "\<not> isl (strptime_Yb (fst x))"
      using new assms(2) by auto
  qed
qed

lemma accrue_items_parsed:
  assumes "accrue_items items totals = Inr totals'"
    and "\<forall>x \<in> set totals. \<not> isl (strptime_Yb (fst x))"
    and "\<forall>item \<in> set items. month_index (listed_on item) \<le> month_index (acted_on item)
           \<longrightarrow> 12001 \<le> month_index (listed_on item)"
  shows "\<forall>x \<in> set totals'. \<not> isl (strptime_Yb (fst x))"
  using assms
proof (induction items arbitrary: totals)
  case Nil
  then show ?case by simp
next
  case (Cons item items)
  from Cons.prems(1) obtain t where t: "accrue_item item totals = Inr t"
    and rest: "accrue_items items t = Inr totals'"
    by (auto split: sum.splits)
  have "\<forall>x \<in> set t. \<not> isl (strptime_Yb (fst x))"
    by (rule accrue_item_parsed[OF t Cons.prems(2)]) (use Cons.prems(3) in simp)
  from Cons.IH[OF rest this] Cons.prems(3) show ?case by simp
qed

lemma by_month_returns_between_1000_and_9999:
  fixes items :: "('p::{zero,plus}) MarketItem list"
  assumes "\<forall>item \<in> set items. valid_datetime (listed_on item) \<and> valid_datetime (acted_on item)
             \<and> (month_index (listed_on item) \<le> month_index (acted_on item)
                  \<longrightarrow> 1000 \<le> year (listed_on item)
                       \<and> month_index (acted_on item) \<noteq> 120000)"
  shows "\<exists>result. get_total_price_by_month items = Inr result"
proof -
  have "\<exists>totals'. accrue_items items [] = Inr totals'"
    by (rule accrue_items_returns) (use assms in blast)
  then obtain t where t: "accrue_items items [] = Inr t" by blast
  have lo: "\<forall>item \<in> set items. month_index (listed_on item) \<le> month_index (acted_on item)
           \<longrightarrow> 12001 \<le> month_index (listed_on item)"
  proof (intro ballI impI)
    fix item assume i: "item \<in> set items"
      and "month_index (listed_on item) \<le> month_index (acted_on item)"
    with assms have y: "1000 \<le> year (listed_on item)" and v: "valid_datetime (listed_on item)"
      by blast+
    from v have "Suc 0 \<le> month (listed_on item)" by (simp add: valid_datetime_def)
    with y show "12001 \<le> month_index (listed_on item)" by (simp add: month_index_def)
  qed
  have "\<forall>x \<in> set t. \<not> isl (strptime_Yb (fst x))"
    by (rule accrue_items_parsed[OF t _ lo]) simp
  from by_month_returns[OF t this] show ?thesis by blast
qed

lemma key_dec_9999_facts:
  "valid_datetime (listed_on key_dec_9999)"
  "valid_datetime (acted_on key_dec_9999)"
  "month_index (listed_on key_dec_9999) = 120000"
  "month_index (acted_on key_dec_9999) = 120000"
  by (simp_all add: key_dec_9999_def market_item_def date_def valid_datetime_def
      MINYEAR_def MAXYEAR_def days_in_month_def month_index_def)

text \<open>
  Claim C9 fails at the last representable month. A valid record listed on 1 December
  9999 and acted on 31 December 9999 makes the loop add to the bucket \<^verbatim>\<open>9999-Dec\<close> and
  then advance the cursor with \<^verbatim>\<open>current.replace(year=current.year + 1, month=1)\<close>;
  the year 10000 is out of range, so \<^verbatim>\<open>get_total_price_by_month\<close> raises
  \<^verbatim>\<open>ValueError\<close> instead of returning a result.
\<close>

theorem by_month_raises_in_december_9999:
  "valid_datetime (listed_on key_dec_9999) \<and> valid_datetime (acted_on key_dec_9999)
   \<and> get_total_price_by_month [key_dec_9999] = Inl ValueError"
  by (simp add: key_dec_9999_facts get_total_price_by_month_def
      accrue_item_valid[OF key_dec_9999_facts(1,2)])

end
